theory Spec2Isabelle
  imports Main "HOL-Library.Word"
begin

section \<open>Machine types of the contracts\<close>

text \<open>
  Solidity's \<open>uint256\<close>, \<open>uint40\<close>, \<open>uint8\<close> and \<open>address\<close> are
  fixed-width words. Both contracts are compiled with \<open>pragma solidity ^0.8.20\<close>, so
  \<open>+\<close>, \<open>-\<close>, \<open>*\<close> and \<open>++\<close> outside an \<open>unchecked\<close> block revert with
  \<open>Panic(0x11)\<close> instead of wrapping; the checked operations below return that panic
  as an error value.
\<close>

type_synonym address = "160 word"
type_synonym uint256 = "256 word"
type_synonym uint40 = "40 word"
type_synonym uint8 = "8 word"

datatype error =
    NotTaskCreator | NotAssignedAgent | TaskNotExist | InvalidTaskStatus
  | InsufficientEscrow | TitleRequired | RewardMustBePositive | DeadlineMustBeInFuture
  | AmountMustBePositive | CreatorCannotBid | BidNotExist | BidNotPending
  | NoAgentAssigned | CannotCancel | NotAuthorized | InvalidPercentage
  | InvalidTokenAddress
  | EscrowNotExists | EscrowAlreadyExists | EscrowAlreadyReleased | NotEscrowCreator
  | InsufficientDeposit | InvalidAmount | InvalidAgent
  | Panic
  | OwnableUnauthorizedAccount | OwnableInvalidOwner
  | ERC20InsufficientBalance | ERC20InsufficientAllowance
  | ERC20InvalidSender | ERC20InvalidReceiver | ERC20InvalidApprover

definition checked_add :: "uint256 \<Rightarrow> uint256 \<Rightarrow> error + uint256" where
  "checked_add a b = (if unat a + unat b < 2 ^ 256 then Inr (a + b) else Inl Panic)"

definition checked_sub :: "uint256 \<Rightarrow> uint256 \<Rightarrow> error + uint256" where
  "checked_sub a b = (if b \<le> a then Inr (a - b) else Inl Panic)"

definition checked_mul :: "uint256 \<Rightarrow> uint256 \<Rightarrow> error + uint256" where
  "checked_mul a b = (if unat a * unat b < 2 ^ 256 then Inr (a * b) else Inl Panic)"

text \<open>The transaction context a call reads: \<open>msg.sender\<close> and \<open>block.timestamp\<close>.\<close>

record env =
  msg_sender :: address
  block_timestamp :: uint256

section \<open>The payment token\<close>

text \<open>
  Modelled from the spec: the payment token is an external collaborator, reached through
  \<open>IERC20\<close> and \<open>SafeERC20\<close>; its code is not among the repository's sources
  (\<open>MockERC20.sol\<close> only inherits the OpenZeppelin \<open>ERC20\<close>). The model is that
  standard ledger: a balance per address, an allowance per owner and spender, transfers
  that revert on an insufficient balance or allowance or on the zero address, and a
  credit that is not overflow-checked because the total supply fits in \<open>uint256\<close>.
  \<open>SafeERC20\<close> turns every failure of the token call into a revert of the caller.
\<close>

record token_state =
  balances :: "address \<Rightarrow> uint256"
  allowances :: "address \<Rightarrow> address \<Rightarrow> uint256"

definition tok_transfer ::
  "address \<Rightarrow> address \<Rightarrow> uint256 \<Rightarrow> token_state \<Rightarrow> error + token_state" where
  "tok_transfer from to v tok =
     (if from = 0 then Inl ERC20InvalidSender
      else if to = 0 then Inl ERC20InvalidReceiver
      else if balances tok from < v then Inl ERC20InsufficientBalance
      else
        let b1 = (balances tok)(from := balances tok from - v)
        in Inr (tok\<lparr>balances := b1(to := b1 to + v)\<rparr>))"

definition tok_transferFrom ::
  "address \<Rightarrow> address \<Rightarrow> address \<Rightarrow> uint256 \<Rightarrow> token_state \<Rightarrow> error + token_state" where
  "tok_transferFrom spender from to v tok =
     (let a = allowances tok from spender in
      if a < - 1 then
        (if a < v then Inl ERC20InsufficientAllowance
         else if from = 0 then Inl ERC20InvalidApprover
         else tok_transfer from to v
                (tok\<lparr>allowances := (allowances tok)(from := (allowances tok from)(spender := a - v))\<rparr>))
      else tok_transfer from to v tok)"

text \<open>The total supply, as the sum of all balances, fits in \<open>uint256\<close>.\<close>

definition totalSupply :: "token_state \<Rightarrow> nat" where
  "totalSupply tok = (\<Sum>a\<in>UNIV. unat (balances tok a))"

definition supply_ok :: "token_state \<Rightarrow> bool" where
  "supply_ok tok \<longleftrightarrow> totalSupply tok < 2 ^ 256"

section \<open>TaskEscrow: data\<close>

datatype TaskStatus = Open | InProgress | Completed | Disputed | Cancelled | Finalized

datatype BidStatus = Pending | Accepted | Rejected | Withdrawn

record Task =
  t_id :: uint256
  t_creator :: address
  t_assignedAgent :: address
  t_reward :: uint256
  t_deadline :: uint40
  t_status :: TaskStatus
  t_createdAt :: uint40
  t_completedAt :: uint40
  t_title :: string
  t_description :: string

record Bid =
  b_id :: uint256
  b_taskId :: uint256
  b_agent :: address
  b_amount :: uint256
  b_status :: BidStatus
  b_createdAt :: uint40
  b_message :: string

text \<open>A mapping returns the zero value of its value type at a key never written.\<close>

definition zero_Task :: Task where
  "zero_Task = \<lparr>t_id = 0, t_creator = 0, t_assignedAgent = 0, t_reward = 0, t_deadline = 0,
     t_status = Open, t_createdAt = 0, t_completedAt = 0, t_title = [], t_description = []\<rparr>"

definition zero_Bid :: Bid where
  "zero_Bid = \<lparr>b_id = 0, b_taskId = 0, b_agent = 0, b_amount = 0, b_status = Pending,
     b_createdAt = 0, b_message = []\<rparr>"

datatype event =
    TaskCreated uint256 address uint256 string uint40
  | TaskUpdated uint256 TaskStatus
  | TaskResultSubmitted uint256 address string
  | BidSubmitted uint256 uint256 address uint256 string
  | BidStatusChanged uint256 uint256 BidStatus
  | DepositMade uint256 address uint256
  | PaymentReleased uint256 address uint256
  | TaskCancelled uint256 address uint256
  | DisputeRaised uint256 address
  | DisputeResolved uint256 address uint256

text \<open>
  The storage of a deployed TaskEscrow, with its own address, the owner kept by
  \<open>Ownable\<close>, the state of \<open>paymentToken\<close> and the log of emitted events. The flag of
  \<open>ReentrancyGuard\<close> is not a field: the modelled token never calls back, so every call
  enters with the flag clear and leaves it clear.
\<close>

record escrow_state =
  this_addr :: address
  owner :: address
  taskCounter :: uint256
  bidCounter :: uint256
  tasks :: "uint256 \<Rightarrow> Task"
  taskBids :: "uint256 \<Rightarrow> uint256 list"
  bids :: "uint256 \<Rightarrow> Bid"
  creatorTasks :: "address \<Rightarrow> uint256 list"
  agentTasks :: "address \<Rightarrow> uint256 list"
  deposits :: "uint256 \<Rightarrow> uint256"
  token :: token_state
  events :: "event list"

definition deploy :: "address \<Rightarrow> address \<Rightarrow> token_state \<Rightarrow> escrow_state" where
  "deploy this deployer tok =
     \<lparr>this_addr = this, owner = deployer, taskCounter = 0, bidCounter = 0,
      tasks = (\<lambda>_. zero_Task), taskBids = (\<lambda>_. []), bids = (\<lambda>_. zero_Bid),
      creatorTasks = (\<lambda>_. []), agentTasks = (\<lambda>_. []), deposits = (\<lambda>_. 0),
      token = tok, events = []\<rparr>"

text \<open>\<open>paymentToken.safeTransfer(to, v)\<close> and \<open>paymentToken.safeTransferFrom(from, this, v)\<close>,
  called in the state the contract has at that point of the function body.\<close>

definition safeTransfer :: "escrow_state \<Rightarrow> address \<Rightarrow> uint256 \<Rightarrow> error + escrow_state" where
  "safeTransfer s to v =
     (case tok_transfer (this_addr s) to v (token s) of
        Inl e \<Rightarrow> Inl e
      | Inr tok' \<Rightarrow> Inr (s\<lparr>token := tok'\<rparr>))"

definition safeTransferFrom ::
  "escrow_state \<Rightarrow> address \<Rightarrow> address \<Rightarrow> uint256 \<Rightarrow> error + escrow_state" where
  "safeTransferFrom s from to v =
     (case tok_transferFrom (this_addr s) from to v (token s) of
        Inl e \<Rightarrow> Inl e
      | Inr tok' \<Rightarrow> Inr (s\<lparr>token := tok'\<rparr>))"

definition emit :: "event \<Rightarrow> escrow_state \<Rightarrow> escrow_state" where
  "emit ev s = s\<lparr>events := events s @ [ev]\<rparr>"

section \<open>TaskEscrow: operations\<close>

definition createTask ::
  "env \<Rightarrow> escrow_state \<Rightarrow> string \<Rightarrow> string \<Rightarrow> uint256 \<Rightarrow> uint40 \<Rightarrow> error + (escrow_state \<times> uint256)" where
  "createTask env s title description reward deadline =
     (if length title = 0 then Inl TitleRequired
      else if reward = 0 then Inl RewardMustBePositive
      else if ucast deadline \<le> block_timestamp env then Inl DeadlineMustBeInFuture
      else case checked_add (taskCounter s) 1 of
        Inl e \<Rightarrow> Inl e
      | Inr n \<Rightarrow>
          let newTask = (tasks s n)\<lparr>t_id := n, t_creator := msg_sender env, t_reward := reward,
                 t_deadline := deadline, t_status := Open, t_title := title,
                 t_description := description, t_createdAt := ucast (block_timestamp env)\<rparr>;
              s1 = s\<lparr>taskCounter := n, tasks := (tasks s)(n := newTask),
                     creatorTasks := (creatorTasks s)
                       (msg_sender env := creatorTasks s (msg_sender env) @ [n])\<rparr>
          in Inr (emit (TaskCreated n (msg_sender env) reward title deadline) s1, n))"

definition depositEscrow :: "env \<Rightarrow> escrow_state \<Rightarrow> uint256 \<Rightarrow> uint256 \<Rightarrow> error + escrow_state" where
  "depositEscrow env s taskId amount =
     (if taskId = 0 \<or> taskCounter s < taskId then Inl TaskNotExist
      else if t_status (tasks s taskId) \<noteq> Open then Inl InvalidTaskStatus
      else if amount = 0 then Inl AmountMustBePositive
      else if t_creator (tasks s taskId) \<noteq> msg_sender env then Inl NotTaskCreator
      else case checked_add (deposits s taskId) amount of
        Inl e \<Rightarrow> Inl e
      | Inr d \<Rightarrow>
          (case safeTransferFrom (s\<lparr>deposits := (deposits s)(taskId := d)\<rparr>)
                  (msg_sender env) (this_addr s) amount of
             Inl e \<Rightarrow> Inl e
           | Inr s2 \<Rightarrow> Inr (emit (DepositMade taskId (msg_sender env) amount) s2)))"

definition submitBid ::
  "env \<Rightarrow> escrow_state \<Rightarrow> uint256 \<Rightarrow> uint256 \<Rightarrow> string \<Rightarrow> error + (escrow_state \<times> uint256)" where
  "submitBid env s taskId amount message =
     (if taskId = 0 \<or> taskCounter s < taskId then Inl TaskNotExist
      else if t_status (tasks s taskId) \<noteq> Open then Inl InvalidTaskStatus
      else if amount = 0 then Inl AmountMustBePositive
      else if t_creator (tasks s taskId) = msg_sender env then Inl CreatorCannotBid
      else case checked_add (bidCounter s) 1 of
        Inl e \<Rightarrow> Inl e
      | Inr n \<Rightarrow>
          let newBid = (bids s n)\<lparr>b_id := n, b_taskId := taskId, b_agent := msg_sender env,
                 b_amount := amount, b_status := Pending, b_message := message,
                 b_createdAt := ucast (block_timestamp env)\<rparr>;
              s1 = s\<lparr>bidCounter := n, bids := (bids s)(n := newBid),
                     taskBids := (taskBids s)(taskId := taskBids s taskId @ [n])\<rparr>
          in Inr (emit (BidSubmitted n taskId (msg_sender env) amount message) s1, n))"

text \<open>The loop of \<open>_rejectOtherBids\<close> over the stored array \<open>taskBids[taskId]\<close>.\<close>

fun rejectOtherBids :: "uint256 list \<Rightarrow> uint256 \<Rightarrow> uint256 \<Rightarrow> escrow_state \<Rightarrow> escrow_state" where
  "rejectOtherBids [] acceptedBidId taskId s = s"
| "rejectOtherBids (bidId # rest) acceptedBidId taskId s =
     rejectOtherBids rest acceptedBidId taskId
       (if bidId \<noteq> acceptedBidId \<and> b_status (bids s bidId) = Pending
        then emit (BidStatusChanged bidId taskId Rejected)
               (s\<lparr>bids := (bids s)(bidId := (bids s bidId)\<lparr>b_status := Rejected\<rparr>)\<rparr>)
        else s)"

definition acceptBid :: "env \<Rightarrow> escrow_state \<Rightarrow> uint256 \<Rightarrow> error + escrow_state" where
  "acceptBid env s bidId =
     (let bid = bids s bidId in
      if b_id bid \<noteq> bidId then Inl BidNotExist
      else if b_status bid \<noteq> Pending then Inl BidNotPending
      else
        let task = tasks s (b_taskId bid) in
        if t_creator task \<noteq> msg_sender env then Inl NotTaskCreator
        else if t_status task \<noteq> Open then Inl InvalidTaskStatus
        else if deposits s (b_taskId bid) < b_amount bid then Inl InsufficientEscrow
        else
          let taskId = b_taskId bid; agent = b_agent bid; bidAmount = b_amount bid;
              s1 = s\<lparr>bids := (bids s)(bidId := bid\<lparr>b_status := Accepted\<rparr>)\<rparr>;
              s2 = s1\<lparr>tasks := (tasks s1)(taskId := task\<lparr>t_assignedAgent := agent,
                        t_reward := bidAmount, t_status := InProgress\<rparr>)\<rparr>;
              bidIds = taskBids s2 taskId;
              s3 = (if length bidIds > 1 then rejectOtherBids bidIds bidId taskId s2 else s2);
              s4 = s3\<lparr>agentTasks := (agentTasks s3)(agent := agentTasks s3 agent @ [taskId])\<rparr>
          in Inr (emit (TaskUpdated taskId InProgress)
                   (emit (BidStatusChanged bidId taskId Accepted) s4)))"

definition rejectBid :: "env \<Rightarrow> escrow_state \<Rightarrow> uint256 \<Rightarrow> error + escrow_state" where
  "rejectBid env s bidId =
     (let bid = bids s bidId in
      if b_id bid \<noteq> bidId then Inl BidNotExist
      else if b_status bid \<noteq> Pending then Inl BidNotPending
      else if t_creator (tasks s (b_taskId bid)) \<noteq> msg_sender env then Inl NotTaskCreator
      else Inr (emit (BidStatusChanged bidId (b_taskId bid) Rejected)
                 (s\<lparr>bids := (bids s)(bidId := bid\<lparr>b_status := Rejected\<rparr>)\<rparr>)))"

definition withdrawBid :: "env \<Rightarrow> escrow_state \<Rightarrow> uint256 \<Rightarrow> error + escrow_state" where
  "withdrawBid env s bidId =
     (let bid = bids s bidId in
      if b_id bid \<noteq> bidId then Inl BidNotExist
      else if b_status bid \<noteq> Pending then Inl BidNotPending
      else if b_agent bid \<noteq> msg_sender env then Inl NotAssignedAgent
      else Inr (emit (BidStatusChanged bidId (b_taskId bid) Withdrawn)
                 (s\<lparr>bids := (bids s)(bidId := bid\<lparr>b_status := Withdrawn\<rparr>)\<rparr>)))"

definition completeTask :: "env \<Rightarrow> escrow_state \<Rightarrow> uint256 \<Rightarrow> string \<Rightarrow> error + escrow_state" where
  "completeTask env s taskId resultHash =
     (if t_assignedAgent (tasks s taskId) \<noteq> msg_sender env then Inl NotAssignedAgent
      else if t_status (tasks s taskId) \<noteq> InProgress then Inl InvalidTaskStatus
      else
        let task = tasks s taskId;
            s1 = s\<lparr>tasks := (tasks s)(taskId := task\<lparr>t_status := Completed,
                      t_completedAt := ucast (block_timestamp env)\<rparr>)\<rparr>
        in Inr (emit (TaskUpdated taskId Completed)
                 (emit (TaskResultSubmitted taskId (msg_sender env) resultHash) s1)))"

text \<open>
  \<open>approveAndRelease\<close> in the order of its body: the checks, then the state update the
  source marks \<open>Update state before transfer (CEI pattern)\<close>, then the transfers, which
  are called in the updated state.
\<close>

definition approveAndRelease_update :: "escrow_state \<Rightarrow> uint256 \<Rightarrow> escrow_state" where
  "approveAndRelease_update s taskId =
     s\<lparr>deposits := (deposits s)(taskId := 0),
       tasks := (tasks s)(taskId := (tasks s taskId)\<lparr>t_status := Finalized\<rparr>)\<rparr>"

definition approveAndRelease_transfers ::
  "escrow_state \<Rightarrow> uint256 \<Rightarrow> address \<Rightarrow> uint256 \<Rightarrow> address \<Rightarrow> uint256 \<Rightarrow> error + escrow_state" where
  "approveAndRelease_transfers s1 taskId agent reward creator paymentAmount =
     (case safeTransfer s1 agent reward of
        Inl e \<Rightarrow> Inl e
      | Inr s2 \<Rightarrow>
          (case (if paymentAmount > reward then safeTransfer s2 creator (paymentAmount - reward)
                 else Inr s2) of
             Inl e \<Rightarrow> Inl e
           | Inr s3 \<Rightarrow> Inr (emit (TaskUpdated taskId Finalized)
                             (emit (PaymentReleased taskId agent reward) s3))))"

definition approveAndRelease :: "env \<Rightarrow> escrow_state \<Rightarrow> uint256 \<Rightarrow> error + escrow_state" where
  "approveAndRelease env s taskId =
     (if t_creator (tasks s taskId) \<noteq> msg_sender env then Inl NotTaskCreator
      else if t_status (tasks s taskId) \<noteq> Completed then Inl InvalidTaskStatus
      else
        let task = tasks s taskId; paymentAmount = deposits s taskId in
        if paymentAmount < t_reward task then Inl InsufficientEscrow
        else if t_assignedAgent task = 0 then Inl NoAgentAssigned
        else approveAndRelease_transfers (approveAndRelease_update s taskId) taskId
               (t_assignedAgent task) (t_reward task) (t_creator task) paymentAmount)"

definition raiseDispute :: "env \<Rightarrow> escrow_state \<Rightarrow> uint256 \<Rightarrow> error + escrow_state" where
  "raiseDispute env s taskId =
     (if taskId = 0 \<or> taskCounter s < taskId then Inl TaskNotExist
      else
        let task = tasks s taskId in
        if msg_sender env \<noteq> t_creator task \<and> msg_sender env \<noteq> t_assignedAgent task
        then Inl NotAuthorized
        else if t_status task \<noteq> InProgress \<and> t_status task \<noteq> Completed
        then Inl InvalidTaskStatus
        else Inr (emit (TaskUpdated taskId Disputed)
                   (emit (DisputeRaised taskId (msg_sender env))
                     (s\<lparr>tasks := (tasks s)(taskId := task\<lparr>t_status := Disputed\<rparr>)\<rparr>))))"

definition resolveDispute ::
  "env \<Rightarrow> escrow_state \<Rightarrow> uint256 \<Rightarrow> address \<Rightarrow> uint8 \<Rightarrow> error + escrow_state" where
  "resolveDispute env s taskId winner creatorPercent =
     (if owner s \<noteq> msg_sender env then Inl OwnableUnauthorizedAccount
      else if t_status (tasks s taskId) \<noteq> Disputed then Inl InvalidTaskStatus
      else if creatorPercent > 100 then Inl InvalidPercentage
      else
        let totalDeposit = deposits s taskId;
            s1 = s\<lparr>deposits := (deposits s)(taskId := 0),
                   tasks := (tasks s)(taskId := (tasks s taskId)\<lparr>t_status := Finalized\<rparr>)\<rparr>;
            task = tasks s1 taskId
        in case checked_mul totalDeposit (ucast creatorPercent) of
          Inl e \<Rightarrow> Inl e
        | Inr p \<Rightarrow>
            let creatorAmount = p div 100 in
            (case checked_sub totalDeposit creatorAmount of
               Inl e \<Rightarrow> Inl e
             | Inr agentAmount \<Rightarrow>
                 (case (if creatorAmount > 0 then safeTransfer s1 (t_creator task) creatorAmount
                        else Inr s1) of
                    Inl e \<Rightarrow> Inl e
                  | Inr s2 \<Rightarrow>
                      (case (if agentAmount > 0 \<and> t_assignedAgent task \<noteq> 0
                             then safeTransfer s2 (t_assignedAgent task) agentAmount
                             else Inr s2) of
                         Inl e \<Rightarrow> Inl e
                       | Inr s3 \<Rightarrow> Inr (emit (TaskUpdated taskId Finalized)
                                         (emit (DisputeResolved taskId winner totalDeposit) s3))))))"

definition cancelTask :: "env \<Rightarrow> escrow_state \<Rightarrow> uint256 \<Rightarrow> error + escrow_state" where
  "cancelTask env s taskId =
     (if t_creator (tasks s taskId) \<noteq> msg_sender env then Inl NotTaskCreator
      else if t_status (tasks s taskId) \<noteq> Open \<and> t_status (tasks s taskId) \<noteq> InProgress
      then Inl CannotCancel
      else
        let refundAmount = deposits s taskId;
            s1 = s\<lparr>deposits := (deposits s)(taskId := 0),
                   tasks := (tasks s)(taskId := (tasks s taskId)\<lparr>t_status := Cancelled\<rparr>)\<rparr>
        in case (if refundAmount > 0 then safeTransfer s1 (t_creator (tasks s1 taskId)) refundAmount
                 else Inr s1) of
          Inl e \<Rightarrow> Inl e
        | Inr s2 \<Rightarrow> Inr (emit (TaskUpdated taskId Cancelled)
                          (emit (TaskCancelled taskId (msg_sender env) refundAmount) s2)))"

text \<open>The two state-changing functions the contract inherits from \<open>Ownable\<close>.\<close>

definition transferOwnership :: "env \<Rightarrow> escrow_state \<Rightarrow> address \<Rightarrow> error + escrow_state" where
  "transferOwnership env s newOwner =
     (if owner s \<noteq> msg_sender env then Inl OwnableUnauthorizedAccount
      else if newOwner = 0 then Inl OwnableInvalidOwner
      else Inr (s\<lparr>owner := newOwner\<rparr>))"

definition renounceOwnership :: "env \<Rightarrow> escrow_state \<Rightarrow> error + escrow_state" where
  "renounceOwnership env s =
     (if owner s \<noteq> msg_sender env then Inl OwnableUnauthorizedAccount
      else Inr (s\<lparr>owner := 0\<rparr>))"

section \<open>TaskEscrow: reachable states\<close>

datatype call =
    CreateTask string string uint256 uint40
  | DepositEscrow uint256 uint256
  | SubmitBid uint256 uint256 string
  | AcceptBid uint256
  | RejectBid uint256
  | WithdrawBid uint256
  | CompleteTask uint256 string
  | ApproveAndRelease uint256
  | RaiseDispute uint256
  | ResolveDispute uint256 address uint8
  | CancelTask uint256
  | TransferOwnership address
  | RenounceOwnership

fun exec :: "env \<Rightarrow> escrow_state \<Rightarrow> call \<Rightarrow> error + escrow_state" where
  "exec env s (CreateTask title description reward deadline) =
     (case createTask env s title description reward deadline of
        Inl e \<Rightarrow> Inl e | Inr (s', n) \<Rightarrow> Inr s')"
| "exec env s (DepositEscrow taskId amount) = depositEscrow env s taskId amount"
| "exec env s (SubmitBid taskId amount message) =
     (case submitBid env s taskId amount message of
        Inl e \<Rightarrow> Inl e | Inr (s', n) \<Rightarrow> Inr s')"
| "exec env s (AcceptBid bidId) = acceptBid env s bidId"
| "exec env s (RejectBid bidId) = rejectBid env s bidId"
| "exec env s (WithdrawBid bidId) = withdrawBid env s bidId"
| "exec env s (CompleteTask taskId resultHash) = completeTask env s taskId resultHash"
| "exec env s (ApproveAndRelease taskId) = approveAndRelease env s taskId"
| "exec env s (RaiseDispute taskId) = raiseDispute env s taskId"
| "exec env s (ResolveDispute taskId winner creatorPercent) =
     resolveDispute env s taskId winner creatorPercent"
| "exec env s (CancelTask taskId) = cancelTask env s taskId"
| "exec env s (TransferOwnership newOwner) = transferOwnership env s newOwner"
| "exec env s (RenounceOwnership) = renounceOwnership env s"

text \<open>
  The states a deployed TaskEscrow can be in. It is deployed at a non-zero address, on a
  token in any state: its address may already hold tokens. Every later state comes from
  a successful call of one of its external functions (a reverted call leaves the state
  as it was), sent by an account that is neither the zero address nor the contract
  itself, or from activity on the token by others: approvals, transfers and mints,
  also to the contract's own address. An ERC-20 balance is debited only by a transfer of
  its holder or by \<open>transferFrom\<close> of a spender the holder approved, and TaskEscrow
  never approves a spender, so the activity of others never lowers the contract's balance.
\<close>

inductive reachable :: "escrow_state \<Rightarrow> bool" where
  deployed: "supply_ok tok \<Longrightarrow> this \<noteq> 0 \<Longrightarrow> reachable (deploy this deployer tok)"
| called: "reachable s \<Longrightarrow> msg_sender env \<noteq> 0 \<Longrightarrow> msg_sender env \<noteq> this_addr s \<Longrightarrow>
     exec env s c = Inr s' \<Longrightarrow> reachable s'"
| token_activity: "reachable s \<Longrightarrow> supply_ok tok' \<Longrightarrow>
     balances (token s) (this_addr s) \<le> balances tok' (this_addr s) \<Longrightarrow>
     reachable (s\<lparr>token := tok'\<rparr>)"

text \<open>The contract's held token balance, and the terminal task states.\<close>

definition held :: "escrow_state \<Rightarrow> uint256" where
  "held s = balances (token s) (this_addr s)"

definition terminal :: "TaskStatus \<Rightarrow> bool" where
  "terminal st \<longleftrightarrow> st = Finalized \<or> st = Cancelled"

text \<open>The facts that hold in every reachable state, one group per definition.\<close>

definition inv_tasks :: "escrow_state \<Rightarrow> bool" where
  "inv_tasks s \<longleftrightarrow>
     (\<forall>t. (t = 0 \<or> taskCounter s < t) \<longrightarrow>
        tasks s t = zero_Task \<and> deposits s t = 0 \<and> taskBids s t = []) \<and>
     (\<forall>t. t \<noteq> 0 \<and> t \<le> taskCounter s \<longrightarrow>
        t_id (tasks s t) = t \<and> t_creator (tasks s t) \<noteq> 0 \<and>
        t_creator (tasks s t) \<noteq> this_addr s)"

definition inv_bids :: "escrow_state \<Rightarrow> bool" where
  "inv_bids s \<longleftrightarrow>
     (\<forall>b. (b = 0 \<or> bidCounter s < b) \<longrightarrow> bids s b = zero_Bid) \<and>
     (\<forall>b. b \<noteq> 0 \<and> b \<le> bidCounter s \<longrightarrow>
        b_id (bids s b) = b \<and> b_agent (bids s b) \<noteq> 0 \<and>
        b_agent (bids s b) \<noteq> this_addr s \<and>
        b_taskId (bids s b) \<noteq> 0 \<and> b_taskId (bids s b) \<le> taskCounter s \<and>
        b \<in> set (taskBids s (b_taskId (bids s b)))) \<and>
     (\<forall>t b. b \<in> set (taskBids s t) \<longrightarrow> b \<noteq> 0 \<and> b \<le> bidCounter s)"

definition inv_agent :: "escrow_state \<Rightarrow> bool" where
  "inv_agent s \<longleftrightarrow>
     (\<forall>t. (t_status (tasks s t) = Open \<longrightarrow> t_assignedAgent (tasks s t) = 0) \<and>
          (t_status (tasks s t) \<in> {InProgress, Completed, Disputed, Finalized} \<longrightarrow>
             t_assignedAgent (tasks s t) \<noteq> 0 \<and>
             t_assignedAgent (tasks s t) \<noteq> this_addr s))"

definition inv_accepted :: "escrow_state \<Rightarrow> bool" where
  "inv_accepted s \<longleftrightarrow>
     (\<forall>b. b_status (bids s b) = Accepted \<longrightarrow>
        t_status (tasks s (b_taskId (bids s b))) \<noteq> Open) \<and>
     (\<forall>b b'. b_status (bids s b) = Accepted \<and> b_status (bids s b') = Accepted \<and>
        b_taskId (bids s b) = b_taskId (bids s b') \<longrightarrow> b = b')"

definition inv_funds :: "escrow_state \<Rightarrow> bool" where
  "inv_funds s \<longleftrightarrow>
     (\<Sum>t\<in>UNIV. unat (deposits s t)) \<le> unat (held s) \<and>
     (\<forall>t. terminal (t_status (tasks s t)) \<longrightarrow> deposits s t = 0) \<and>
     (\<forall>t. t_status (tasks s t) \<in> {InProgress, Completed, Disputed} \<longrightarrow>
        t_reward (tasks s t) \<le> deposits s t) \<and>
     supply_ok (token s) \<and> this_addr s \<noteq> 0"

definition ledger_inv :: "escrow_state \<Rightarrow> bool" where
  "ledger_inv s \<longleftrightarrow> inv_tasks s \<and> inv_bids s \<and> inv_agent s \<and> inv_accepted s \<and> inv_funds s"

text \<open>The bidder of a bid and the agent of an assigned task are never the task's creator
  (\<open>submitBid\<close> reverts with \<open>CreatorCannotBid\<close>).\<close>

definition inv_parties :: "escrow_state \<Rightarrow> bool" where
  "inv_parties s \<longleftrightarrow>
     (\<forall>b. b \<noteq> 0 \<and> b \<le> bidCounter s \<longrightarrow>
        b_agent (bids s b) \<noteq> t_creator (tasks s (b_taskId (bids s b)))) \<and>
     (\<forall>t. t_status (tasks s t) \<in> {InProgress, Completed, Disputed, Finalized} \<longrightarrow>
        t_assignedAgent (tasks s t) \<noteq> t_creator (tasks s t))"

text \<open>The escrow the ledger has booked: the sum of the deposits of the tasks that are not
  terminal. Value conservation as the spec words it: the held balance is that sum, and a
  terminal task holds nothing.\<close>

definition booked :: "escrow_state \<Rightarrow> nat" where
  "booked s = (\<Sum>t\<in>{t. \<not> terminal (t_status (tasks s t))}. unat (deposits s t))"

definition conserved :: "escrow_state \<Rightarrow> bool" where
  "conserved s \<longleftrightarrow>
     unat (held s) = booked s \<and>
     (\<forall>t. terminal (t_status (tasks s t)) \<longrightarrow> deposits s t = 0)"

text \<open>The ids the contract treats as assigned: the test of its modifier \<open>taskExists\<close>.\<close>

definition taskExists :: "escrow_state \<Rightarrow> uint256 \<Rightarrow> bool" where
  "taskExists s taskId \<longleftrightarrow> \<not> (taskId = 0 \<or> taskCounter s < taskId)"

text \<open>The spec's error taxonomy (section 7), over the contract's custom errors.\<close>

datatype error_class = ValidationError | AuthorizationError | StateError | FundsError | OtherError

fun classify :: "error \<Rightarrow> error_class" where
  "classify TitleRequired = ValidationError"
| "classify RewardMustBePositive = ValidationError"
| "classify DeadlineMustBeInFuture = ValidationError"
| "classify AmountMustBePositive = ValidationError"
| "classify InvalidPercentage = ValidationError"
| "classify InvalidAmount = ValidationError"
| "classify NotTaskCreator = AuthorizationError"
| "classify NotAssignedAgent = AuthorizationError"
| "classify NotAuthorized = AuthorizationError"
| "classify CreatorCannotBid = AuthorizationError"
| "classify OwnableUnauthorizedAccount = AuthorizationError"
| "classify NotEscrowCreator = AuthorizationError"
| "classify InvalidTaskStatus = StateError"
| "classify BidNotPending = StateError"
| "classify CannotCancel = StateError"
| "classify TaskNotExist = StateError"
| "classify BidNotExist = StateError"
| "classify EscrowNotExists = StateError"
| "classify EscrowAlreadyExists = StateError"
| "classify EscrowAlreadyReleased = StateError"
| "classify InsufficientEscrow = FundsError"
| "classify InsufficientDeposit = FundsError"
| "classify _ = OtherError"

text \<open>A transaction either commits the state its call returns or reverts and leaves the
  state as it was; \<open>run\<close> sends a list of transactions in order.\<close>

definition exec_or_revert :: "env \<Rightarrow> escrow_state \<Rightarrow> call \<Rightarrow> escrow_state" where
  "exec_or_revert env s c = (case exec env s c of Inl e \<Rightarrow> s | Inr s' \<Rightarrow> s')"

fun run :: "(env \<times> call) list \<Rightarrow> escrow_state \<Rightarrow> escrow_state" where
  "run [] s = s"
| "run ((env, c) # cs) s = run cs (exec_or_revert env s c)"

section \<open>SimpleEscrow\<close>

record Escrow =
  e_amount :: uint256
  e_creator :: address
  e_agent :: address
  e_exists :: bool
  e_released :: bool

definition zero_Escrow :: Escrow where
  "zero_Escrow = \<lparr>e_amount = 0, e_creator = 0, e_agent = 0, e_exists = False, e_released = False\<rparr>"

datatype simple_event =
    EscrowDeposited uint256 address uint256
  | EscrowReleased uint256 address address uint256
  | EscrowRefunded uint256 address uint256

record simple_state =
  se_this :: address
  se_owner :: address
  escrows :: "uint256 \<Rightarrow> Escrow"
  nextEscrowId :: uint256
  se_token :: token_state
  se_events :: "simple_event list"

definition simple_deploy :: "address \<Rightarrow> address \<Rightarrow> token_state \<Rightarrow> simple_state" where
  "simple_deploy this deployer tok =
     \<lparr>se_this = this, se_owner = deployer, escrows = (\<lambda>_. zero_Escrow), nextEscrowId = 0,
      se_token = tok, se_events = []\<rparr>"

definition simple_depositEscrow ::
  "env \<Rightarrow> simple_state \<Rightarrow> uint256 \<Rightarrow> uint256 \<Rightarrow> error + simple_state" where
  "simple_depositEscrow env s taskId amount =
     (if amount = 0 then Inl InvalidAmount
      else if e_exists (escrows s taskId) then Inl EscrowAlreadyExists
      else
        let s1 = s\<lparr>escrows := (escrows s)(taskId :=
                   \<lparr>e_amount = amount, e_creator = msg_sender env, e_agent = 0,
                    e_exists = True, e_released = False\<rparr>)\<rparr>
        in case tok_transferFrom (se_this s1) (msg_sender env) (se_this s1) amount (se_token s1) of
          Inl e \<Rightarrow> Inl e
        | Inr tok' \<Rightarrow>
            Inr (s1\<lparr>se_token := tok',
                    se_events := se_events s1 @ [EscrowDeposited taskId (msg_sender env) amount]\<rparr>))"

definition simple_approveAndRelease ::
  "env \<Rightarrow> simple_state \<Rightarrow> uint256 \<Rightarrow> address \<Rightarrow> error + simple_state" where
  "simple_approveAndRelease env s taskId agent =
     (let escrow = escrows s taskId in
      if \<not> e_exists escrow then Inl EscrowNotExists
      else if e_released escrow then Inl EscrowAlreadyReleased
      else if e_creator escrow \<noteq> msg_sender env then Inl NotEscrowCreator
      else if agent = 0 then Inl InvalidAgent
      else
        let s1 = s\<lparr>escrows := (escrows s)(taskId := escrow\<lparr>e_released := True, e_agent := agent\<rparr>)\<rparr>;
            amount = e_amount (escrows s1 taskId)
        in case tok_transfer (se_this s1) agent amount (se_token s1) of
          Inl e \<Rightarrow> Inl e
        | Inr tok' \<Rightarrow>
            Inr (s1\<lparr>se_token := tok',
                    se_events := se_events s1 @
                      [EscrowReleased taskId (msg_sender env) agent amount]\<rparr>))"

definition refund :: "env \<Rightarrow> simple_state \<Rightarrow> uint256 \<Rightarrow> error + simple_state" where
  "refund env s taskId =
     (let escrow = escrows s taskId in
      if \<not> e_exists escrow then Inl EscrowNotExists
      else if e_released escrow then Inl EscrowAlreadyReleased
      else if e_creator escrow \<noteq> msg_sender env then Inl NotEscrowCreator
      else
        let s1 = s\<lparr>escrows := (escrows s)(taskId := escrow\<lparr>e_released := True\<rparr>)\<rparr>;
            amount = e_amount (escrows s1 taskId)
        in case tok_transfer (se_this s1) (e_creator (escrows s1 taskId)) amount (se_token s1) of
          Inl e \<Rightarrow> Inl e
        | Inr tok' \<Rightarrow>
            Inr (s1\<lparr>se_token := tok',
                    se_events := se_events s1 @ [EscrowRefunded taskId (msg_sender env) amount]\<rparr>))"

datatype simple_call =
    SDepositEscrow uint256 uint256
  | SApproveAndRelease uint256 address
  | SRefund uint256
  | STransferOwnership address
  | SRenounceOwnership

fun simple_exec :: "env \<Rightarrow> simple_state \<Rightarrow> simple_call \<Rightarrow> error + simple_state" where
  "simple_exec env s (SDepositEscrow taskId amount) = simple_depositEscrow env s taskId amount"
| "simple_exec env s (SApproveAndRelease taskId agent) = simple_approveAndRelease env s taskId agent"
| "simple_exec env s (SRefund taskId) = refund env s taskId"
| "simple_exec env s (STransferOwnership newOwner) =
     (if se_owner s \<noteq> msg_sender env then Inl OwnableUnauthorizedAccount
      else if newOwner = 0 then Inl OwnableInvalidOwner
      else Inr (s\<lparr>se_owner := newOwner\<rparr>))"
| "simple_exec env s SRenounceOwnership =
     (if se_owner s \<noteq> msg_sender env then Inl OwnableUnauthorizedAccount
      else Inr (s\<lparr>se_owner := 0\<rparr>))"

text \<open>A transaction commits or reverts; \<open>simple_run\<close> sends a list of them in order.\<close>

definition simple_exec_or_revert :: "env \<Rightarrow> simple_state \<Rightarrow> simple_call \<Rightarrow> simple_state" where
  "simple_exec_or_revert env s c = (case simple_exec env s c of Inl e \<Rightarrow> s | Inr s' \<Rightarrow> s')"

fun simple_run :: "(env \<times> simple_call) list \<Rightarrow> simple_state \<Rightarrow> simple_state" where
  "simple_run [] s = s"
| "simple_run ((env, c) # cs) s = simple_run cs (simple_exec_or_revert env s c)"

text \<open>The states of a deployed SimpleEscrow: the deployment, then successful calls of its
  external functions and any activity on the token.\<close>

inductive simple_reachable :: "simple_state \<Rightarrow> bool" where
  simple_deployed: "simple_reachable (simple_deploy this deployer tok)"
| simple_called: "simple_reachable s \<Longrightarrow> simple_exec env s c = Inr s' \<Longrightarrow> simple_reachable s'"
| simple_token_activity: "simple_reachable s \<Longrightarrow> simple_reachable (s\<lparr>se_token := tok'\<rparr>)"

text \<open>A released escrow exists.\<close>

definition inv_released :: "simple_state \<Rightarrow> bool" where
  "inv_released s \<longleftrightarrow> (\<forall>t. e_released (escrows s t) \<longrightarrow> e_exists (escrows s t))"

section \<open>The mirror: PUT /api/tasks/[id]/bids\<close>

text \<open>
  The rows of the mirror's \<open>bid\<close> and \<open>task\<close> tables, keyed by their \<open>id\<close> column, with
  the columns the handler reads or writes. The Prisma schema is not among the sources; the
  status values are those of \<open>BidStatusType\<close> and \<open>TaskStatusType\<close> in the store.
\<close>

datatype MirrorBidStatus = PENDING | ACCEPTED | REJECTED | WITHDRAWN

datatype MirrorTaskStatus = OPEN | IN_PROGRESS | COMPLETED | DISPUTED | CLOSED | CANCELLED

record mirror_bid =
  mb_taskId :: string
  mb_agentId :: string
  mb_status :: MirrorBidStatus

record mirror_task =
  mt_status :: MirrorTaskStatus
  mt_agentId :: "string option"
  mt_escrowDeposited :: bool
  mt_txHash :: "string option"

record mirror_db =
  db_bids :: "string \<rightharpoonup> mirror_bid"
  db_tasks :: "string \<rightharpoonup> mirror_task"

text \<open>The JSON body of the request. A field that is absent or falsy in JavaScript is the
  empty string or \<open>False\<close>.\<close>

record put_body =
  pb_bidId :: string
  pb_status :: string
  pb_forceAccept :: bool
  pb_escrowDeposited :: bool
  pb_txHash :: string

record response =
  r_code :: nat
  r_success :: bool
  r_text :: string
  r_data :: "mirror_bid option"

definition respond :: "nat \<Rightarrow> bool \<Rightarrow> string \<Rightarrow> mirror_bid option \<Rightarrow> response" where
  "respond c ok txt d = \<lparr>r_code = c, r_success = ok, r_text = txt, r_data = d\<rparr>"

text \<open>\<open>db.bid.findFirst({ where: { id: bidId, taskId: id } })\<close>\<close>

definition findFirst_bid :: "mirror_db \<Rightarrow> string \<Rightarrow> string \<Rightarrow> mirror_bid option" where
  "findFirst_bid db bidId taskId =
     (case db_bids db bidId of
        None \<Rightarrow> None
      | Some bid \<Rightarrow> if mb_taskId bid = taskId then Some bid else None)"

text \<open>\<open>status as BidStatus\<close>: the database accepts the four enum values and throws on any
  other string.\<close>

definition bid_status_of :: "string \<Rightarrow> MirrorBidStatus option" where
  "bid_status_of st =
     (if st = ''PENDING'' then Some PENDING
      else if st = ''ACCEPTED'' then Some ACCEPTED
      else if st = ''REJECTED'' then Some REJECTED
      else if st = ''WITHDRAWN'' then Some WITHDRAWN
      else None)"

fun lower_status :: "MirrorBidStatus \<Rightarrow> string" where
  "lower_status PENDING = ''pending''"
| "lower_status ACCEPTED = ''accepted''"
| "lower_status REJECTED = ''rejected''"
| "lower_status WITHDRAWN = ''withdrawn''"

text \<open>The \<open>updateData\<close> both branches build, applied by \<open>db.task.update\<close>; the update
  throws when the task row does not exist.\<close>

definition task_updateData :: "put_body \<Rightarrow> mirror_bid \<Rightarrow> mirror_task \<Rightarrow> mirror_task" where
  "task_updateData body bid task =
     task\<lparr>mt_agentId := Some (mb_agentId bid), mt_status := IN_PROGRESS,
          mt_escrowDeposited := (if pb_escrowDeposited body then True else mt_escrowDeposited task),
          mt_txHash := (if pb_txHash body \<noteq> [] then Some (pb_txHash body) else mt_txHash task)\<rparr>"

definition task_update :: "mirror_db \<Rightarrow> string \<Rightarrow> (mirror_task \<Rightarrow> mirror_task) \<Rightarrow> mirror_db option" where
  "task_update db taskId f =
     (case db_tasks db taskId of
        None \<Rightarrow> None
      | Some task \<Rightarrow> Some (db\<lparr>db_tasks := (db_tasks db)(taskId \<mapsto> f task)\<rparr>))"

text \<open>\<open>db.bid.updateMany\<close>: every other bid of the task that is still pending is rejected.\<close>

definition reject_other_pending :: "mirror_db \<Rightarrow> string \<Rightarrow> string \<Rightarrow> mirror_db" where
  "reject_other_pending db taskId bidId =
     db\<lparr>db_bids := (\<lambda>k. case db_bids db k of
          None \<Rightarrow> None
        | Some b \<Rightarrow>
            Some (if mb_taskId b = taskId \<and> k \<noteq> bidId \<and> mb_status b = PENDING
                  then b\<lparr>mb_status := REJECTED\<rparr> else b))\<rparr>"

definition failed_update :: response where
  "failed_update = respond 500 False ''Failed to update bid'' None"

text \<open>The handler. Its writes are separate database calls, not one transaction, so a
  write that throws leaves the earlier writes in place.\<close>

definition PUT :: "string \<Rightarrow> put_body \<Rightarrow> mirror_db \<Rightarrow> response \<times> mirror_db" where
  "PUT taskId body db =
     (if pb_bidId body = [] \<or> pb_status body = []
      then (respond 400 False ''Missing required fields: bidId, status'' None, db)
      else case findFirst_bid db (pb_bidId body) taskId of
        None \<Rightarrow> (respond 404 False ''Bid not found'' None, db)
      | Some bid \<Rightarrow>
          if pb_status body = ''ACCEPTED'' \<and> mb_status bid = ACCEPTED \<and> pb_forceAccept body
          then
            (if pb_escrowDeposited body \<or> pb_txHash body \<noteq> []
             then (case task_update db taskId (task_updateData body bid) of
                     None \<Rightarrow> (failed_update, db)
                   | Some db' \<Rightarrow>
                       (respond 200 True ''Bid already accepted, task updated'' (Some bid), db'))
             else (respond 200 True ''Bid already accepted, task updated'' (Some bid), db))
          else if \<not> (pb_status body = ''ACCEPTED'' \<and> pb_forceAccept body) \<and>
                  mb_status bid \<noteq> PENDING
          then (respond 400 False ''Can only update pending bids'' None, db)
          else (case bid_status_of (pb_status body) of
            None \<Rightarrow> (failed_update, db)
          | Some st \<Rightarrow>
              let updatedBid = bid\<lparr>mb_status := st\<rparr>;
                  db1 = db\<lparr>db_bids := (db_bids db)(pb_bidId body \<mapsto> updatedBid)\<rparr>;
                  ok = respond 200 True (''Bid '' @ lower_status st @ '' successfully'')
                         (Some updatedBid)
              in if pb_status body = ''ACCEPTED''
                 then (case task_update db1 taskId (task_updateData body bid) of
                         None \<Rightarrow> (failed_update, db1)
                       | Some db2 \<Rightarrow> (ok, reject_other_pending db2 taskId (pb_bidId body)))
                 else (ok, db1)))"

text \<open>
  The handler calls the database only; no call to either contract appears in it. In a
  world made of the ledger and the mirror it therefore maps the mirror and passes the
  ledger through.
\<close>

record world =
  ledger :: escrow_state
  mirror :: mirror_db

definition PUT_world :: "string \<Rightarrow> put_body \<Rightarrow> world \<Rightarrow> response \<times> world" where
  "PUT_world taskId body w = (case PUT taskId body (mirror w) of (r, db') \<Rightarrow> (r, w\<lparr>mirror := db'\<rparr>))"

text \<open>The same request sent \<open>n\<close> times.\<close>

fun PUT_repeat :: "nat \<Rightarrow> string \<Rightarrow> put_body \<Rightarrow> world \<Rightarrow> world" where
  "PUT_repeat 0 taskId body w = w"
| "PUT_repeat (Suc n) taskId body w = PUT_repeat n taskId body (snd (PUT_world taskId body w))"

section \<open>Concrete runs\<close>

text \<open>The accounts, the token and the transactions of the scenarios the spec lists under
  its testable properties; the theorems below are instantiated at these states.\<close>

definition ESCROW :: address where "ESCROW = 0xE5"
definition OWNER :: address where "OWNER = 0xA0"
definition CREATOR :: address where "CREATOR = 0xC1"
definition AGENT :: address where "AGENT = 0xA9"
definition AGENT2 :: address where "AGENT2 = 0xAA"

definition tok0 :: token_state where
  "tok0 = \<lparr>balances = (\<lambda>a. if a = CREATOR then 1000 else 0),
           allowances = (\<lambda>a sp. if a = CREATOR \<and> sp = ESCROW then 1000 else 0)\<rparr>"

definition sent_by :: "address \<Rightarrow> env" where
  "sent_by a = \<lparr>msg_sender = a, block_timestamp = 1700000000\<rparr>"

definition demo0 :: escrow_state where
  "demo0 = deploy ESCROW OWNER tok0"

text \<open>create task(reward=50), depositEscrow(50), two bids (40 and 45), acceptBid,
  completeTask, approveAndRelease.\<close>

definition happy_path :: "(env \<times> call) list" where
  "happy_path =
     [(sent_by CREATOR, CreateTask ''Audit'' ''Audit the vault'' 50 1800000000),
      (sent_by CREATOR, DepositEscrow 1 50),
      (sent_by AGENT, SubmitBid 1 40 ''msg''),
      (sent_by AGENT2, SubmitBid 1 45 ''alt''),
      (sent_by CREATOR, AcceptBid 1),
      (sent_by AGENT, CompleteTask 1 ''QmResult''),
      (sent_by CREATOR, ApproveAndRelease 1)]"

definition s_funded :: escrow_state where "s_funded = run (take 2 happy_path) demo0"
definition s_bids :: escrow_state where "s_bids = run (take 4 happy_path) demo0"
definition s_inprogress :: escrow_state where "s_inprogress = run (take 5 happy_path) demo0"
definition s_completed :: escrow_state where "s_completed = run (take 6 happy_path) demo0"
definition s_finalized :: escrow_state where "s_finalized = run happy_path demo0"

text \<open>The task is cancelled by its creator after a bid was accepted.\<close>

definition s_cancelled :: escrow_state where
  "s_cancelled = run [(sent_by CREATOR, CancelTask 1)] s_inprogress"

text \<open>depositEscrow(30) and a bid of 40: the escrow does not cover the bid.\<close>

definition short_path :: "(env \<times> call) list" where
  "short_path =
     [(sent_by CREATOR, CreateTask ''Audit'' ''Audit the vault'' 50 1800000000),
      (sent_by CREATOR, DepositEscrow 1 30),
      (sent_by AGENT, SubmitBid 1 40 ''msg'')]"

definition s_short :: escrow_state where "s_short = run short_path demo0"

text \<open>A disputed task with an escrow of 100.\<close>

definition dispute_path :: "(env \<times> call) list" where
  "dispute_path =
     [(sent_by CREATOR, CreateTask ''Audit'' ''Audit the vault'' 100 1800000000),
      (sent_by CREATOR, DepositEscrow 1 100),
      (sent_by AGENT, SubmitBid 1 100 ''msg''),
      (sent_by CREATOR, AcceptBid 1),
      (sent_by AGENT, RaiseDispute 1)]"

definition s_disputed :: escrow_state where "s_disputed = run dispute_path demo0"

text \<open>A disputed task whose escrow is \<open>2^255\<close> token units, on a token whose supply is
  that large.\<close>

definition BIG :: uint256 where
  "BIG = 0x8000000000000000000000000000000000000000000000000000000000000000"

definition tok_big :: token_state where
  "tok_big = \<lparr>balances = (\<lambda>a. if a = CREATOR then BIG else 0),
              allowances = (\<lambda>a sp. if a = CREATOR \<and> sp = ESCROW then BIG else 0)\<rparr>"

definition big_path :: "(env \<times> call) list" where
  "big_path =
     [(sent_by CREATOR, CreateTask ''Audit'' ''Audit the vault'' 1 1800000000),
      (sent_by CREATOR, DepositEscrow 1 BIG),
      (sent_by AGENT, SubmitBid 1 1 ''msg''),
      (sent_by CREATOR, AcceptBid 1),
      (sent_by AGENT, RaiseDispute 1)]"

definition s_big :: escrow_state where "s_big = run big_path (deploy ESCROW OWNER tok_big)"

text \<open>The creator sends 5 tokens to the contract's address by a plain ERC-20 transfer,
  before any task exists; then the happy path runs.\<close>

definition tok_donated :: token_state where
  "tok_donated = (case tok_transfer CREATOR ESCROW 5 tok0 of Inl e \<Rightarrow> tok0 | Inr tok' \<Rightarrow> tok')"

definition s_donated :: escrow_state where
  "s_donated = demo0\<lparr>token := tok_donated\<rparr>"

definition s_donated_final :: escrow_state where
  "s_donated_final = run happy_path s_donated"

text \<open>A storage in which a Completed task holds less than its reward (30 against 40). No
  run of the contract produces it; it exercises the guard of \<open>approveAndRelease\<close>.\<close>

definition s_underfunded :: escrow_state where
  "s_underfunded = s_completed\<lparr>deposits := (deposits s_completed)(1 := 30)\<rparr>"

text \<open>A SimpleEscrow on which the creator deposits 50 for task 7 and releases it to the agent,
  and one on which the creator takes the deposit back.\<close>

definition simple_demo0 :: simple_state where
  "simple_demo0 = simple_deploy ESCROW OWNER tok0"

definition ss_deposited :: simple_state where
  "ss_deposited = simple_run [(sent_by CREATOR, SDepositEscrow 7 50)] simple_demo0"

definition ss_released :: simple_state where
  "ss_released = simple_run [(sent_by CREATOR, SApproveAndRelease 7 AGENT)] ss_deposited"

definition ss_refunded :: simple_state where
  "ss_refunded = simple_run [(sent_by CREATOR, SRefund 7)] ss_deposited"

text \<open>
  Mirror states. In \<open>db_two_pending\<close> an open task has two pending bids, as after two
  \<open>POST\<close> requests. In \<open>db_AB\<close> the task is in progress with bid A accepted and bid B still
  pending, as after the task was set back to OPEN through \<open>PUT /api/tasks/[id]\<close> and bid B
  was posted.
\<close>

definition bid_row :: "string \<Rightarrow> MirrorBidStatus \<Rightarrow> mirror_bid" where
  "bid_row agent st = \<lparr>mb_taskId = ''task1'', mb_agentId = agent, mb_status = st\<rparr>"

definition db_two_pending :: mirror_db where
  "db_two_pending =
     \<lparr>db_bids = [''bidA'' \<mapsto> bid_row ''agentA'' PENDING, ''bidB'' \<mapsto> bid_row ''agentB'' PENDING],
      db_tasks = [''task1'' \<mapsto> \<lparr>mt_status = OPEN, mt_agentId = None,
                    mt_escrowDeposited = False, mt_txHash = None\<rparr>]\<rparr>"

definition db_AB :: mirror_db where
  "db_AB =
     \<lparr>db_bids = [''bidA'' \<mapsto> bid_row ''agentA'' ACCEPTED, ''bidB'' \<mapsto> bid_row ''agentB'' PENDING],
      db_tasks = [''task1'' \<mapsto> \<lparr>mt_status = IN_PROGRESS, mt_agentId = Some ''agentA'',
                    mt_escrowDeposited = True, mt_txHash = Some ''0x01''\<rparr>]\<rparr>"

definition accept_body :: "string \<Rightarrow> put_body" where
  "accept_body bidId = \<lparr>pb_bidId = bidId, pb_status = ''ACCEPTED'', pb_forceAccept = False,
     pb_escrowDeposited = True, pb_txHash = ''0x01''\<rparr>"

definition force_body :: "string \<Rightarrow> put_body" where
  "force_body bidId = \<lparr>pb_bidId = bidId, pb_status = ''ACCEPTED'', pb_forceAccept = True,
     pb_escrowDeposited = True, pb_txHash = ''0x01''\<rparr>"

text \<open>The mirror after bid A was accepted by an ordinary request, which rejects bid B; and a
  world in which the ledger has accepted bid 1 and the mirror has accepted bid A.\<close>

definition db_accepted_A :: mirror_db where
  "db_accepted_A = snd (PUT ''task1'' (accept_body ''bidA'') db_two_pending)"

definition w_AB :: world where
  "w_AB = \<lparr>ledger = s_inprogress, mirror = db_AB\<rparr>"

lemma sum_fun_upd_nat:
  fixes g :: "'a::finite \<Rightarrow> nat"
  shows "sum (g(k := x)) UNIV + g k = sum g UNIV + x"
proof -
  have a: "sum (g(k := x)) UNIV = x + sum (g(k := x)) (UNIV - {k})"
    by (subst sum.remove [of UNIV k]) auto
  have b: "sum g UNIV = g k + sum g (UNIV - {k})"
    by (subst sum.remove [of UNIV k]) auto
  have c: "sum (g(k := x)) (UNIV - {k}) = sum g (UNIV - {k})"
    by (rule sum.cong) auto
  show ?thesis using a b c by simp
qed

lemma unat_fun_upd: "(\<lambda>t. unat ((f(k := v)) t)) = (\<lambda>t. unat (f t))(k := unat v)"
  by auto

lemma sum_unat_upd:
  fixes f :: "'a::finite \<Rightarrow> 'b::len word"
  shows "(\<Sum>t\<in>UNIV. unat ((f(k := v)) t)) + unat (f k) = (\<Sum>t\<in>UNIV. unat (f t)) + unat v"
  unfolding unat_fun_upd by (rule sum_fun_upd_nat)

lemma sum_two_le:
  fixes g :: "'a::finite \<Rightarrow> nat"
  assumes "a \<noteq> b"
  shows "g a + g b \<le> sum g UNIV"
proof -
  have "sum g {a, b} \<le> sum g UNIV"
    by (rule sum_mono2) auto
  then show ?thesis using assms by simp
qed

lemma sum_one_le:
  fixes g :: "'a::finite \<Rightarrow> nat"
  shows "g a \<le> sum g UNIV"
  using sum_mono2 [of UNIV "{a}" g] by simp

lemma tok_transfer_Inr:
  "tok_transfer from to v tok = Inr tok' \<longleftrightarrow>
     from \<noteq> 0 \<and> to \<noteq> 0 \<and> v \<le> balances tok from \<and>
     tok' = tok\<lparr>balances := ((balances tok)(from := balances tok from - v))
              (to := ((balances tok)(from := balances tok from - v)) to + v)\<rparr>"
  by (auto simp: tok_transfer_def Let_def not_less)

lemma tok_transfer_self:
  assumes "tok_transfer a a v tok = Inr tok'"
  shows "tok' = tok"
  using assms by (simp add: tok_transfer_Inr)

lemma tok_transfer_allowances:
  "tok_transfer from to v tok = Inr tok' \<Longrightarrow> allowances tok' = allowances tok"
  by (auto simp: tok_transfer_Inr)

lemma tok_transfer_other:
  "tok_transfer from to v tok = Inr tok' \<Longrightarrow> a \<noteq> from \<Longrightarrow> a \<noteq> to \<Longrightarrow>
     balances tok' a = balances tok a"
  by (auto simp: tok_transfer_Inr)

lemma tok_transfer_from:
  assumes "tok_transfer from to v tok = Inr tok'" "from \<noteq> to"
  shows "unat (balances tok' from) + unat v = unat (balances tok from)"
  using assms by (auto simp: tok_transfer_Inr unat_sub word_le_nat_alt)

lemma tok_transfer_to:
  assumes "tok_transfer from to v tok = Inr tok'" "from \<noteq> to" "supply_ok tok"
  shows "unat (balances tok' to) = unat (balances tok to) + unat v"
proof -
  have le: "unat v \<le> unat (balances tok from)"
    using assms(1) by (simp add: tok_transfer_Inr word_le_nat_alt)
  have "unat (balances tok from) + unat (balances tok to) \<le> totalSupply tok"
    unfolding totalSupply_def using sum_two_le [OF assms(2), of "\<lambda>a. unat (balances tok a)"] .
  then have "unat (balances tok to) + unat v < 2 ^ 256"
    using le assms(3) by (simp add: supply_ok_def)
  then have "unat (balances tok to + v) = unat (balances tok to) + unat v"
    using unat_add_lem [of "balances tok to" v] by simp
  then show ?thesis using assms(1,2) by (auto simp: tok_transfer_Inr)
qed

lemma tok_transfer_supply:
  assumes "tok_transfer from to v tok = Inr tok'" "supply_ok tok"
  shows "totalSupply tok' = totalSupply tok"
proof (cases "from = to")
  case True
  then show ?thesis using assms(1) tok_transfer_self by auto
next
  case False
  let ?b1 = "(balances tok)(from := balances tok from - v)"
  have t': "balances tok' = ?b1(to := balances tok' to)"
    using assms(1) by (auto simp: tok_transfer_Inr)
  have f: "unat (balances tok from - v) + unat v = unat (balances tok from)"
    using assms(1) by (auto simp: tok_transfer_Inr unat_sub word_le_nat_alt)
  have t: "unat (balances tok' to) = unat (balances tok to) + unat v"
    by (rule tok_transfer_to [OF assms(1) False assms(2)])
  have s1: "(\<Sum>a\<in>UNIV. unat (?b1 a)) + unat (balances tok from)
            = (\<Sum>a\<in>UNIV. unat (balances tok a)) + unat (balances tok from - v)"
    by (rule sum_unat_upd)
  have s2: "(\<Sum>a\<in>UNIV. unat ((?b1(to := balances tok' to)) a)) + unat (?b1 to)
            = (\<Sum>a\<in>UNIV. unat (?b1 a)) + unat (balances tok' to)"
    by (rule sum_unat_upd)
  have "?b1 to = balances tok to" using False by simp
  with s1 s2 f t have "(\<Sum>a\<in>UNIV. unat ((?b1(to := balances tok' to)) a))
            = (\<Sum>a\<in>UNIV. unat (balances tok a))"
    by simp
  then show ?thesis unfolding totalSupply_def using t' by simp
qed

lemma tok_transferFrom_Inr:
  assumes "tok_transferFrom spender from to v tok = Inr tok'"
  shows "\<exists>tok1. balances tok1 = balances tok \<and> tok_transfer from to v tok1 = Inr tok'"
proof (cases "allowances tok from spender < - 1")
  case True
  let ?tok1 = "tok\<lparr>allowances := (allowances tok)(from := (allowances tok from)
                 (spender := allowances tok from spender - v))\<rparr>"
  have "tok_transfer from to v ?tok1 = Inr tok'"
    using assms True by (simp add: tok_transferFrom_def Let_def split: if_splits)
  moreover have "balances ?tok1 = balances tok" by simp
  ultimately show ?thesis by blast
next
  case False
  then have "tok_transfer from to v tok = Inr tok'"
    using assms by (simp add: tok_transferFrom_def Let_def)
  then show ?thesis by blast
qed

lemma supply_ok_cong: "balances tok1 = balances tok \<Longrightarrow> supply_ok tok1 = supply_ok tok"
  by (simp add: supply_ok_def totalSupply_def)

lemma tok_transferFrom_in:
  assumes "tok_transferFrom spender from to v tok = Inr tok'" "from \<noteq> to" "supply_ok tok"
  shows "unat (balances tok' to) = unat (balances tok to) + unat v"
    and "supply_ok tok'"
proof -
  obtain tok1 where b: "balances tok1 = balances tok" and t: "tok_transfer from to v tok1 = Inr tok'"
    using tok_transferFrom_Inr [OF assms(1)] by blast
  have ok: "supply_ok tok1" using assms(3) supply_ok_cong [OF b] by blast
  show "unat (balances tok' to) = unat (balances tok to) + unat v"
    using tok_transfer_to [OF t assms(2) ok] b by simp
  show "supply_ok tok'"
    using tok_transfer_supply [OF t ok] ok by (simp only: supply_ok_def)
qed

lemma tok_transfer_out:
  assumes "tok_transfer from to v tok = Inr tok'" "from \<noteq> to" "supply_ok tok"
  shows "unat (balances tok' from) + unat v = unat (balances tok from)"
    and "unat (balances tok' to) = unat (balances tok to) + unat v"
    and "supply_ok tok'"
  using tok_transfer_from [OF assms(1,2)] tok_transfer_to [OF assms] tok_transfer_supply [OF assms(1,3)] assms(3)
  by (simp_all only: supply_ok_def)

lemma emit_simps [simp]:
  "tasks (emit ev s) = tasks s" "bids (emit ev s) = bids s" "deposits (emit ev s) = deposits s"
  "token (emit ev s) = token s" "taskCounter (emit ev s) = taskCounter s"
  "bidCounter (emit ev s) = bidCounter s" "taskBids (emit ev s) = taskBids s"
  "this_addr (emit ev s) = this_addr s" "owner (emit ev s) = owner s"
  "creatorTasks (emit ev s) = creatorTasks s" "agentTasks (emit ev s) = agentTasks s"
  "events (emit ev s) = events s @ [ev]"
  by (simp_all add: emit_def)

lemma held_emit [simp]: "held (emit ev s) = held s"
  by (simp add: held_def)

text \<open>the reject loop\<close>

lemma rejectOtherBids_frame [simp]:
  "tasks (rejectOtherBids xs a t s) = tasks s"
  "deposits (rejectOtherBids xs a t s) = deposits s"
  "token (rejectOtherBids xs a t s) = token s"
  "taskCounter (rejectOtherBids xs a t s) = taskCounter s"
  "bidCounter (rejectOtherBids xs a t s) = bidCounter s"
  "taskBids (rejectOtherBids xs a t s) = taskBids s"
  "this_addr (rejectOtherBids xs a t s) = this_addr s"
  "owner (rejectOtherBids xs a t s) = owner s"
  "creatorTasks (rejectOtherBids xs a t s) = creatorTasks s"
  "agentTasks (rejectOtherBids xs a t s) = agentTasks s"
  by (induction xs arbitrary: s; simp)+

lemma rejectOtherBids_bids:
  "bids (rejectOtherBids xs a t s) b =
     (if b \<in> set xs \<and> b \<noteq> a \<and> b_status (bids s b) = Pending
      then (bids s b)\<lparr>b_status := Rejected\<rparr> else bids s b)"
  by (induction xs arbitrary: s) auto

lemma checked_add_one:
  assumes "checked_add c 1 = Inr n"
  shows "n \<noteq> 0" and "c < n" and "t \<le> n \<longleftrightarrow> t \<le> c \<or> t = n" and "n < t \<Longrightarrow> c < t"
    and "n = c + 1"
proof -
  have ok: "unat c + 1 < 2 ^ 256" and n: "n = c + 1"
    using assms by (auto simp: checked_add_def split: if_splits)
  have u: "unat n = unat c + 1"
    using ok unat_add_lem [of c 1] n by simp
  show "n = c + 1" by (rule n)
  show "n \<noteq> 0" using u by (auto simp: unat_eq_0 [symmetric] simp del: unat_eq_0)
  show "c < n" using u by (simp add: word_less_nat_alt)
  show "t \<le> n \<longleftrightarrow> t \<le> c \<or> t = n"
    using u by (auto simp: word_le_nat_alt word_unat_eq_iff)
  show "n < t \<Longrightarrow> c < t" using u by (simp add: word_less_nat_alt)
qed

lemma checked_add_Inr:
  "checked_add a b = Inr d \<Longrightarrow> unat d = unat a + unat b"
  using unat_add_lem [of a b] by (auto simp: checked_add_def split: if_splits)

lemma safeTransfer_Inr:
  assumes "safeTransfer s to v = Inr s'"
  shows "tok_transfer (this_addr s) to v (token s) = Inr (token s')"
    and "s' = s\<lparr>token := token s'\<rparr>"
  using assms by (auto simp: safeTransfer_def split: sum.splits)

lemma safeTransferFrom_Inr:
  assumes "safeTransferFrom s from to v = Inr s'"
  shows "tok_transferFrom (this_addr s) from to v (token s) = Inr (token s')"
    and "s' = s\<lparr>token := token s'\<rparr>"
  using assms by (auto simp: safeTransferFrom_def split: sum.splits)

lemma safeTransfer_frame:
  assumes "safeTransfer s to v = Inr s'"
  shows "tasks s' = tasks s" "bids s' = bids s" "deposits s' = deposits s"
    "taskCounter s' = taskCounter s" "bidCounter s' = bidCounter s" "taskBids s' = taskBids s"
    "this_addr s' = this_addr s" "owner s' = owner s"
  using assms by (auto simp: safeTransfer_def split: sum.splits)

lemma safeTransfer_held:
  assumes "safeTransfer s to v = Inr s'" "to \<noteq> this_addr s" "supply_ok (token s)"
  shows "unat (held s') + unat v = unat (held s)" and "supply_ok (token s')"
    and "unat (balances (token s') to) = unat (balances (token s) to) + unat v"
proof -
  note t = safeTransfer_Inr(1) [OF assms(1)]
  have ne: "this_addr s \<noteq> to" using assms(2) by simp
  note o = tok_transfer_out [OF t ne assms(3)]
  show "unat (held s') + unat v = unat (held s)"
    using o(1) safeTransfer_frame(7) [OF assms(1)] by (simp add: held_def)
  show "supply_ok (token s')" by (rule o(3))
  show "unat (balances (token s') to) = unat (balances (token s) to) + unat v" by (rule o(2))
qed

lemma createTask_Inr:
  assumes "createTask env s ti d r dl = Inr (s', n)"
  shows "checked_add (taskCounter s) 1 = Inr n"
    and "ti \<noteq> []" and "r \<noteq> 0" and "\<not> ucast dl \<le> block_timestamp env"
    and "taskCounter s' = n"
    and "tasks s' = (tasks s)(n := (tasks s n)\<lparr>t_id := n, t_creator := msg_sender env,
           t_reward := r, t_deadline := dl, t_status := Open, t_title := ti,
           t_description := d, t_createdAt := ucast (block_timestamp env)\<rparr>)"
    and "deposits s' = deposits s" and "bids s' = bids s" and "token s' = token s"
    and "this_addr s' = this_addr s" and "bidCounter s' = bidCounter s"
    and "taskBids s' = taskBids s" and "owner s' = owner s"
  using assms by (auto simp: createTask_def Let_def split: if_splits sum.splits)

lemma depositEscrow_Inr:
  assumes "depositEscrow env s t a = Inr s'"
  shows "t \<noteq> 0" and "t \<le> taskCounter s" and "t_status (tasks s t) = Open" and "a \<noteq> 0"
    and "t_creator (tasks s t) = msg_sender env"
    and "checked_add (deposits s t) a = Inr (deposits s' t)"
    and "deposits s' = (deposits s)(t := deposits s' t)"
    and "tok_transferFrom (this_addr s) (msg_sender env) (this_addr s) a (token s) = Inr (token s')"
    and "tasks s' = tasks s" and "bids s' = bids s"
    and "taskCounter s' = taskCounter s" and "bidCounter s' = bidCounter s"
    and "taskBids s' = taskBids s" and "this_addr s' = this_addr s" and "owner s' = owner s"
    and "t' \<noteq> t \<Longrightarrow> deposits s' t' = deposits s t'"
  using assms
  by (auto simp: depositEscrow_def safeTransferFrom_def Let_def not_less
      split: if_splits sum.splits)

lemma submitBid_Inr:
  assumes "submitBid env s t a m = Inr (s', n)"
  shows "t \<noteq> 0" and "t \<le> taskCounter s" and "t_status (tasks s t) = Open" and "a \<noteq> 0"
    and "t_creator (tasks s t) \<noteq> msg_sender env"
    and "checked_add (bidCounter s) 1 = Inr n"
    and "bidCounter s' = n"
    and "bids s' = (bids s)(n := (bids s n)\<lparr>b_id := n, b_taskId := t, b_agent := msg_sender env,
           b_amount := a, b_status := Pending, b_message := m,
           b_createdAt := ucast (block_timestamp env)\<rparr>)"
    and "taskBids s' = (taskBids s)(t := taskBids s t @ [n])"
    and "tasks s' = tasks s" and "deposits s' = deposits s" and "token s' = token s"
    and "taskCounter s' = taskCounter s" and "this_addr s' = this_addr s" and "owner s' = owner s"
  using assms
  by (auto simp: submitBid_def Let_def not_less split: if_splits sum.splits)

lemma acceptBid_Inr:
  assumes "acceptBid env s b = Inr s'"
  shows "b_id (bids s b) = b" and "b_status (bids s b) = Pending"
    and "t_creator (tasks s (b_taskId (bids s b))) = msg_sender env"
    and "t_status (tasks s (b_taskId (bids s b))) = Open"
    and "b_amount (bids s b) \<le> deposits s (b_taskId (bids s b))"
    and "tasks s' = (tasks s)(b_taskId (bids s b) := (tasks s (b_taskId (bids s b)))
           \<lparr>t_assignedAgent := b_agent (bids s b), t_reward := b_amount (bids s b),
            t_status := InProgress\<rparr>)"
    and "bids s' = (\<lambda>b'. if b' = b then (bids s b)\<lparr>b_status := Accepted\<rparr>
           else if length (taskBids s (b_taskId (bids s b))) > 1 \<and>
                   b' \<in> set (taskBids s (b_taskId (bids s b))) \<and> b_status (bids s b') = Pending
           then (bids s b')\<lparr>b_status := Rejected\<rparr> else bids s b')"
    and "deposits s' = deposits s" and "token s' = token s"
    and "taskCounter s' = taskCounter s" and "bidCounter s' = bidCounter s"
    and "taskBids s' = taskBids s" and "this_addr s' = this_addr s" and "owner s' = owner s"
  using assms
  by (auto simp: acceptBid_def Let_def not_less rejectOtherBids_bids fun_eq_iff
      split: if_splits)

lemma rejectBid_Inr:
  assumes "rejectBid env s b = Inr s'"
  shows "b_id (bids s b) = b" and "b_status (bids s b) = Pending"
    and "t_creator (tasks s (b_taskId (bids s b))) = msg_sender env"
    and "bids s' = (bids s)(b := (bids s b)\<lparr>b_status := Rejected\<rparr>)"
    and "tasks s' = tasks s" and "deposits s' = deposits s" and "token s' = token s"
    and "taskCounter s' = taskCounter s" and "bidCounter s' = bidCounter s"
    and "taskBids s' = taskBids s" and "this_addr s' = this_addr s" and "owner s' = owner s"
  using assms by (auto simp: rejectBid_def Let_def split: if_splits)

lemma withdrawBid_Inr:
  assumes "withdrawBid env s b = Inr s'"
  shows "b_id (bids s b) = b" and "b_status (bids s b) = Pending"
    and "b_agent (bids s b) = msg_sender env"
    and "bids s' = (bids s)(b := (bids s b)\<lparr>b_status := Withdrawn\<rparr>)"
    and "tasks s' = tasks s" and "deposits s' = deposits s" and "token s' = token s"
    and "taskCounter s' = taskCounter s" and "bidCounter s' = bidCounter s"
    and "taskBids s' = taskBids s" and "this_addr s' = this_addr s" and "owner s' = owner s"
  using assms by (auto simp: withdrawBid_def Let_def split: if_splits)

lemma completeTask_Inr:
  assumes "completeTask env s t h = Inr s'"
  shows "t_assignedAgent (tasks s t) = msg_sender env" and "t_status (tasks s t) = InProgress"
    and "tasks s' = (tasks s)(t := (tasks s t)\<lparr>t_status := Completed,
           t_completedAt := ucast (block_timestamp env)\<rparr>)"
    and "bids s' = bids s" and "deposits s' = deposits s" and "token s' = token s"
    and "taskCounter s' = taskCounter s" and "bidCounter s' = bidCounter s"
    and "taskBids s' = taskBids s" and "this_addr s' = this_addr s" and "owner s' = owner s"
  using assms by (auto simp: completeTask_def Let_def split: if_splits)

lemma raiseDispute_Inr:
  assumes "raiseDispute env s t = Inr s'"
  shows "t \<noteq> 0" and "t \<le> taskCounter s"
    and "msg_sender env = t_creator (tasks s t) \<or> msg_sender env = t_assignedAgent (tasks s t)"
    and "t_status (tasks s t) = InProgress \<or> t_status (tasks s t) = Completed"
    and "tasks s' = (tasks s)(t := (tasks s t)\<lparr>t_status := Disputed\<rparr>)"
    and "bids s' = bids s" and "deposits s' = deposits s" and "token s' = token s"
    and "taskCounter s' = taskCounter s" and "bidCounter s' = bidCounter s"
    and "taskBids s' = taskBids s" and "this_addr s' = this_addr s" and "owner s' = owner s"
  using assms by (auto simp: raiseDispute_def Let_def not_less split: if_splits)

lemma ownership_Inr:
  assumes "transferOwnership env s a = Inr s' \<or> renounceOwnership env s = Inr s'"
  shows "tasks s' = tasks s" and "bids s' = bids s" and "deposits s' = deposits s"
    and "token s' = token s"
    and "taskCounter s' = taskCounter s" and "bidCounter s' = bidCounter s"
    and "taskBids s' = taskBids s" and "this_addr s' = this_addr s"
  using assms
  by (auto simp: transferOwnership_def renounceOwnership_def split: if_splits)

lemma approveAndRelease_Inr:
  assumes "approveAndRelease env s t = Inr s'"
  shows "t_creator (tasks s t) = msg_sender env" and "t_status (tasks s t) = Completed"
    and "t_reward (tasks s t) \<le> deposits s t" and "t_assignedAgent (tasks s t) \<noteq> 0"
    and "approveAndRelease_transfers (approveAndRelease_update s t) t (t_assignedAgent (tasks s t))
           (t_reward (tasks s t)) (t_creator (tasks s t)) (deposits s t) = Inr s'"
  using assms by (auto simp: approveAndRelease_def Let_def not_less split: if_splits)

lemma approveAndRelease_transfers_Inr:
  assumes "approveAndRelease_transfers s1 t agent rew cr pay = Inr s'"
  shows "\<exists>tok1. tok_transfer (this_addr s1) agent rew (token s1) = Inr tok1 \<and>
           (if rew < pay then tok_transfer (this_addr s1) cr (pay - rew) tok1 = Inr (token s')
            else token s' = tok1)"
    and "tasks s' = tasks s1" and "bids s' = bids s1" and "deposits s' = deposits s1"
    and "taskCounter s' = taskCounter s1" and "bidCounter s' = bidCounter s1"
    and "taskBids s' = taskBids s1" and "this_addr s' = this_addr s1" and "owner s' = owner s1"
  using assms
  by (auto simp: approveAndRelease_transfers_def safeTransfer_def emit_def
      split: if_splits sum.splits)

lemma cancelTask_Inr:
  assumes "cancelTask env s t = Inr s'"
  shows "t_creator (tasks s t) = msg_sender env"
    and "t_status (tasks s t) = Open \<or> t_status (tasks s t) = InProgress"
    and "if deposits s t > 0
         then tok_transfer (this_addr s) (t_creator (tasks s t)) (deposits s t) (token s) = Inr (token s')
         else token s' = token s"
    and "tasks s' = (tasks s)(t := (tasks s t)\<lparr>t_status := Cancelled\<rparr>)"
    and "deposits s' = (deposits s)(t := 0)"
    and "bids s' = bids s"
    and "taskCounter s' = taskCounter s" and "bidCounter s' = bidCounter s"
    and "taskBids s' = taskBids s" and "this_addr s' = this_addr s" and "owner s' = owner s"
  using assms
  by (auto simp: cancelTask_def safeTransfer_def Let_def emit_def
      split: if_splits sum.splits)

lemma resolveDispute_Inr:
  assumes "resolveDispute env s t w p = Inr s'"
  shows "owner s = msg_sender env" and "t_status (tasks s t) = Disputed" and "p \<le> 100"
    and "\<exists>m ca aa tok1. checked_mul (deposits s t) (ucast p) = Inr m \<and> ca = m div 100 \<and>
           checked_sub (deposits s t) ca = Inr aa \<and>
           (if ca > 0 then tok_transfer (this_addr s) (t_creator (tasks s t)) ca (token s) = Inr tok1
            else tok1 = token s) \<and>
           (if aa > 0 \<and> t_assignedAgent (tasks s t) \<noteq> 0
            then tok_transfer (this_addr s) (t_assignedAgent (tasks s t)) aa tok1 = Inr (token s')
            else token s' = tok1)"
    and "tasks s' = (tasks s)(t := (tasks s t)\<lparr>t_status := Finalized\<rparr>)"
    and "deposits s' = (deposits s)(t := 0)"
    and "bids s' = bids s"
    and "taskCounter s' = taskCounter s" and "bidCounter s' = bidCounter s"
    and "taskBids s' = taskBids s" and "this_addr s' = this_addr s" and "owner s' = owner s"
  using assms
  by (auto simp: resolveDispute_def safeTransfer_def Let_def emit_def not_less
      split: if_splits sum.splits)

section \<open>inv_tasks\<close>

lemma inv_tasks_real:
  assumes "inv_tasks s" "tasks s t \<noteq> zero_Task"
  shows "t \<noteq> 0" "t \<le> taskCounter s"
  using assms unfolding inv_tasks_def by (auto simp: not_less [symmetric])

lemma zero_Task_simps [simp]:
  "t_creator zero_Task = 0" "t_assignedAgent zero_Task = 0" "t_status zero_Task = Open"
  "t_id zero_Task = 0" "t_reward zero_Task = 0"
  by (simp_all add: zero_Task_def)

lemma zero_Bid_simps [simp]:
  "b_id zero_Bid = 0" "b_taskId zero_Bid = 0" "b_agent zero_Bid = 0"
  "b_status zero_Bid = Pending" "b_amount zero_Bid = 0"
  by (simp_all add: zero_Bid_def)

lemma inv_tasks_creator_real:
  assumes "inv_tasks s" "t_creator (tasks s t) \<noteq> 0"
  shows "t \<noteq> 0" "t \<le> taskCounter s"
proof -
  have "tasks s t \<noteq> zero_Task" using assms(2) by auto
  then show "t \<noteq> 0" "t \<le> taskCounter s" using inv_tasks_real [OF assms(1)] by auto
qed

lemma inv_tasks_status_real:
  assumes "inv_tasks s" "t_status (tasks s t) \<noteq> Open"
  shows "t \<noteq> 0" "t \<le> taskCounter s"
proof -
  have "tasks s t \<noteq> zero_Task" using assms(2) by auto
  then show "t \<noteq> 0" "t \<le> taskCounter s" using inv_tasks_real [OF assms(1)] by auto
qed

lemma inv_tasks_agent_real:
  assumes "inv_tasks s" "t_assignedAgent (tasks s t) \<noteq> 0"
  shows "t \<noteq> 0" "t \<le> taskCounter s"
proof -
  have "tasks s t \<noteq> zero_Task" using assms(2) by auto
  then show "t \<noteq> 0" "t \<le> taskCounter s" using inv_tasks_real [OF assms(1)] by auto
qed

lemma inv_tasks_upd:
  assumes "inv_tasks s" "t \<noteq> 0" "t \<le> taskCounter s"
    and "\<And>t'. t' \<noteq> t \<Longrightarrow> tasks s' t' = tasks s t' \<and> deposits s' t' = deposits s t' \<and>
           taskBids s' t' = taskBids s t'"
    and "t_id (tasks s' t) = t_id (tasks s t)" "t_creator (tasks s' t) = t_creator (tasks s t)"
    and "taskCounter s' = taskCounter s" "this_addr s' = this_addr s"
  shows "inv_tasks s'"
  unfolding inv_tasks_def
proof (intro conjI allI impI)
  fix t' assume a: "t' = 0 \<or> taskCounter s' < t'"
  then have "t' \<noteq> t" using assms(2,3,7) by auto
  then show "tasks s' t' = zero_Task" "deposits s' t' = 0" "taskBids s' t' = []"
    using assms(1,4,7) a unfolding inv_tasks_def by auto
next
  fix t' assume a: "t' \<noteq> 0 \<and> t' \<le> taskCounter s'"
  show "t_id (tasks s' t') = t'" "t_creator (tasks s' t') \<noteq> 0"
    "t_creator (tasks s' t') \<noteq> this_addr s'"
    using assms a unfolding inv_tasks_def by (cases "t' = t"; auto)+
qed

lemma inv_tasks_frame:
  assumes "inv_tasks s" "tasks s' = tasks s" "deposits s' = deposits s"
    "taskBids s' = taskBids s" "taskCounter s' = taskCounter s" "this_addr s' = this_addr s"
  shows "inv_tasks s'"
  using assms unfolding inv_tasks_def by simp

lemma createTask_inv_tasks:
  assumes "inv_tasks s" "createTask env s ti d r dl = Inr (s', n)"
    "msg_sender env \<noteq> 0" "msg_sender env \<noteq> this_addr s"
  shows "inv_tasks s'"
proof -
  note c = createTask_Inr [OF assms(2)]
  note n = checked_add_one [OF c(1)]
  show ?thesis
    using assms(1,3,4) n(1,2) n(4) unfolding inv_tasks_def c n(3)
    by auto
qed

section \<open>inv_bids\<close>

lemma inv_bids_real:
  assumes "inv_bids s" "bids s b \<noteq> zero_Bid"
  shows "b \<noteq> 0" "b \<le> bidCounter s"
  using assms unfolding inv_bids_def by (auto simp: not_less [symmetric])

lemma inv_bids_status:
  assumes "inv_bids s"
    and "\<And>b. bids s' b = bids s b \<or>
           (b \<noteq> 0 \<and> b \<le> bidCounter s \<and> (\<exists>st. bids s' b = (bids s b)\<lparr>b_status := st\<rparr>))"
    and "bidCounter s' = bidCounter s" "taskCounter s' = taskCounter s"
    and "taskBids s' = taskBids s" "this_addr s' = this_addr s"
  shows "inv_bids s'"
  unfolding inv_bids_def
proof (intro conjI allI impI)
  fix b assume a: "b = 0 \<or> bidCounter s' < b"
  then have "bids s' b = bids s b" using assms(2) [of b] assms(3) by auto
  then show "bids s' b = zero_Bid" using assms(1,3) a unfolding inv_bids_def by auto
next
  fix b assume a: "b \<noteq> 0 \<and> b \<le> bidCounter s'"
  have f: "b_id (bids s' b) = b_id (bids s b)" "b_agent (bids s' b) = b_agent (bids s b)"
    "b_taskId (bids s' b) = b_taskId (bids s b)"
    using assms(2) [of b] by auto
  show "b_id (bids s' b) = b" "b_agent (bids s' b) \<noteq> 0" "b_agent (bids s' b) \<noteq> this_addr s'"
    "b_taskId (bids s' b) \<noteq> 0" "b_taskId (bids s' b) \<le> taskCounter s'"
    "b \<in> set (taskBids s' (b_taskId (bids s' b)))"
    using assms(1,3,4,5,6) a unfolding inv_bids_def f by auto
next
  fix t b assume "b \<in> set (taskBids s' t)"
  then show "b \<noteq> 0" "b \<le> bidCounter s'"
    using assms(1,3,5) unfolding inv_bids_def by auto
qed

lemma inv_bids_frame:
  assumes "inv_bids s" "bids s' = bids s" "bidCounter s' = bidCounter s"
    "taskCounter s' = taskCounter s" "taskBids s' = taskBids s" "this_addr s' = this_addr s"
  shows "inv_bids s'"
  using assms unfolding inv_bids_def by simp

lemma createTask_inv_bids:
  assumes "inv_bids s" "createTask env s ti d r dl = Inr (s', n)"
  shows "inv_bids s'"
proof -
  note c = createTask_Inr [OF assms(2)]
  note n = checked_add_one [OF c(1)]
  show ?thesis
    using assms(1) n(2) unfolding inv_bids_def c
    by (auto intro: order.trans [OF _ less_imp_le])
qed

lemma submitBid_inv_bids:
  assumes "inv_bids s" "submitBid env s t a m = Inr (s', n)"
    "msg_sender env \<noteq> 0" "msg_sender env \<noteq> this_addr s"
  shows "inv_bids s'"
proof -
  note c = submitBid_Inr [OF assms(2)]
  note n = checked_add_one [OF c(6)]
  show ?thesis
    unfolding inv_bids_def
  proof (intro conjI allI impI)
    fix b assume a: "b = 0 \<or> bidCounter s' < b"
    then have "b \<noteq> n" "b = 0 \<or> bidCounter s < b" using n(1,2,4) c(7) by auto
    then show "bids s' b = zero_Bid" using assms(1) unfolding inv_bids_def c by auto
  next
    fix b assume a: "b \<noteq> 0 \<and> b \<le> bidCounter s'"
    show "b_id (bids s' b) = b" "b_agent (bids s' b) \<noteq> 0" "b_agent (bids s' b) \<noteq> this_addr s'"
      "b_taskId (bids s' b) \<noteq> 0" "b_taskId (bids s' b) \<le> taskCounter s'"
      "b \<in> set (taskBids s' (b_taskId (bids s' b)))"
      using assms(1,3,4) a c(1,2) n(3) [of b] unfolding inv_bids_def c
      by (cases "b = n"; auto)+
  next
    fix t' b assume "b \<in> set (taskBids s' t')"
    then have "b = n \<or> b \<in> set (taskBids s t')" unfolding c by (auto split: if_splits)
    then show "b \<noteq> 0" "b \<le> bidCounter s'"
      using assms(1) n(1) n(3) [of b] unfolding inv_bids_def c by auto
  qed
qed

section \<open>inv_agent\<close>

lemma inv_agent_frame:
  assumes "inv_agent s" "tasks s' = tasks s" "this_addr s' = this_addr s"
  shows "inv_agent s'"
  using assms unfolding inv_agent_def by simp

lemma inv_agent_upd:
  assumes "inv_agent s" "tasks s' = (tasks s)(t := X)" "this_addr s' = this_addr s"
    and "t_status X = Open \<longrightarrow> t_assignedAgent X = 0"
    and "t_status X \<in> {InProgress, Completed, Disputed, Finalized} \<longrightarrow>
           t_assignedAgent X \<noteq> 0 \<and> t_assignedAgent X \<noteq> this_addr s"
  shows "inv_agent s'"
  using assms unfolding inv_agent_def by auto

section \<open>inv_accepted\<close>

lemma inv_accepted_frame:
  assumes "inv_accepted s" "tasks s' = tasks s" "bids s' = bids s"
  shows "inv_accepted s'"
  using assms unfolding inv_accepted_def by simp

lemma inv_accepted_tasks:
  assumes "inv_accepted s" "bids s' = bids s"
    and "\<And>t. t_status (tasks s' t) = Open \<Longrightarrow> t_status (tasks s t) = Open"
  shows "inv_accepted s'"
  using assms unfolding inv_accepted_def by auto

lemma inv_accepted_bids:
  assumes "inv_accepted s" "tasks s' = tasks s"
    and "\<And>b. b_status (bids s' b) = Accepted \<Longrightarrow>
           b_status (bids s b) = Accepted \<and> b_taskId (bids s' b) = b_taskId (bids s b)"
  shows "inv_accepted s'"
  using assms unfolding inv_accepted_def by metis

lemma acceptBid_inv_accepted:
  assumes "inv_accepted s" "acceptBid env s b = Inr s'"
  shows "inv_accepted s'"
proof -
  note c = acceptBid_Inr [OF assms(2)]
  let ?t = "b_taskId (bids s b)"
  have tid: "\<And>b'. b_taskId (bids s' b') = b_taskId (bids s b')"
    unfolding c by auto
  have acc: "\<And>b'. b_status (bids s' b') = Accepted \<longleftrightarrow> b' = b \<or> b_status (bids s b') = Accepted"
    unfolding c using c(2) by auto
  have old: "\<And>b'. b_status (bids s b') = Accepted \<Longrightarrow> b_taskId (bids s b') \<noteq> ?t"
    using assms(1) c(4) unfolding inv_accepted_def by auto
  show ?thesis
    unfolding inv_accepted_def
  proof (intro conjI allI impI)
    fix b' assume "b_status (bids s' b') = Accepted"
    then show "t_status (tasks s' (b_taskId (bids s' b'))) \<noteq> Open"
      using assms(1) unfolding inv_accepted_def tid acc c(6) by auto
  next
    fix b1 b2
    assume "b_status (bids s' b1) = Accepted \<and> b_status (bids s' b2) = Accepted \<and>
       b_taskId (bids s' b1) = b_taskId (bids s' b2)"
    then show "b1 = b2"
      using assms(1) old unfolding inv_accepted_def tid acc by metis
  qed
qed

section \<open>inv_funds\<close>

lemma inv_funds_frame:
  assumes "inv_funds s" "tasks s' = tasks s" "deposits s' = deposits s" "token s' = token s"
    "this_addr s' = this_addr s"
  shows "inv_funds s'"
  using assms unfolding inv_funds_def held_def by simp

lemma inv_funds_tasks:
  assumes "inv_funds s" "deposits s' = deposits s" "token s' = token s"
    "this_addr s' = this_addr s"
    and "\<And>t. terminal (t_status (tasks s' t)) \<Longrightarrow> deposits s t = 0"
    and "\<And>t. t_status (tasks s' t) \<in> {InProgress, Completed, Disputed} \<Longrightarrow>
           t_reward (tasks s' t) \<le> deposits s t"
  shows "inv_funds s'"
  using assms unfolding inv_funds_def held_def by simp

lemma inv_funds_payout:
  assumes "inv_funds s" "deposits s' = (deposits s)(t := 0)"
    and "tasks s' = (tasks s)(t := (tasks s t)\<lparr>t_status := st\<rparr>)" "terminal st"
    and "this_addr s' = this_addr s"
    and "unat (held s') + unat (deposits s t) = unat (held s)" "supply_ok (token s')"
  shows "inv_funds s'"
proof -
  have "(\<Sum>t'\<in>UNIV. unat (deposits s' t')) + unat (deposits s t) = (\<Sum>t'\<in>UNIV. unat (deposits s t'))"
    unfolding assms(2) using sum_unat_upd [of "deposits s" t 0] by simp
  then have "(\<Sum>t'\<in>UNIV. unat (deposits s' t')) \<le> unat (held s')"
    using assms(1,6) unfolding inv_funds_def by linarith
  then show ?thesis
    using assms(1,4,5,7) unfolding inv_funds_def assms(2,3) by (auto simp: terminal_def)
qed

lemma unat_ucast_8_256: "unat (ucast (p :: uint8) :: uint256) = unat p"
proof -
  have "unat p < 2 ^ 8" using unsigned_less [of p] by simp
  then have "unat p < 2 ^ 256" by (rule less_trans) simp
  then show ?thesis by (simp add: unsigned_ucast_eq take_bit_nat_eq_self)
qed

lemma percent_le: "(p :: uint8) \<le> 100 \<Longrightarrow> unat p \<le> 100"
  by (simp add: word_le_nat_alt)

text \<open>the split of resolveDispute\<close>

lemma split_amounts:
  assumes "checked_mul d (ucast (p :: uint8)) = Inr m" "p \<le> 100"
  shows "unat (m div 100) = unat d * unat p div 100"
    and "m div 100 \<le> d"
    and "checked_sub d (m div 100) = Inr (d - m div 100)"
    and "unat (d - m div 100) + unat (m div 100) = unat d"
proof -
  have m: "unat m = unat d * unat p"
    using assms(1) unat_mult_lem [of d "ucast p"]
    by (auto simp: checked_mul_def unat_ucast_8_256 split: if_splits)
  show ca: "unat (m div 100) = unat d * unat p div 100"
    by (simp add: unat_div m)
  have "unat d * unat p div 100 \<le> unat d"
    using percent_le [OF assms(2)]
    by (metis div_le_mono div_mult_self_is_m mult_le_mono2 zero_less_numeral)
  then show le: "m div 100 \<le> d" using ca by (simp add: word_le_nat_alt)
  show "checked_sub d (m div 100) = Inr (d - m div 100)"
    using le by (simp add: checked_sub_def)
  show "unat (d - m div 100) + unat (m div 100) = unat d"
    using le by (simp add: unat_sub word_le_nat_alt)
qed

lemma createTask_inv:
  assumes "ledger_inv s" "msg_sender env \<noteq> 0" "msg_sender env \<noteq> this_addr s"
    "createTask env s ti d r dl = Inr (s', n)"
  shows "ledger_inv s'"
proof -
  note c = createTask_Inr [OF assms(4)]
  note n = checked_add_one [OF c(1)]
  have i: "inv_tasks s" "inv_bids s" "inv_agent s" "inv_accepted s" "inv_funds s"
    using assms(1) by (simp_all add: ledger_inv_def)
  have z: "tasks s n = zero_Task" using i(1) n(2) by (simp add: inv_tasks_def)
  have 1: "inv_tasks s'" by (rule createTask_inv_tasks [OF i(1) assms(4,2,3)])
  have 2: "inv_bids s'" by (rule createTask_inv_bids [OF i(2) assms(4)])
  have 3: "inv_agent s'"
    by (rule inv_agent_upd [OF i(3) c(6) c(10)]) (simp_all add: z)
  have 4: "inv_accepted s'"
    by (rule inv_accepted_tasks [OF i(4) c(8)]) (auto simp: c(6) z split: if_splits)
  have 5: "inv_funds s'"
    by (rule inv_funds_tasks [OF i(5) c(7) c(9) c(10)])
       (use i(5) in \<open>auto simp: c(6) inv_funds_def terminal_def split: if_splits\<close>)
  show ?thesis using 1 2 3 4 5 by (simp add: ledger_inv_def)
qed

lemma depositEscrow_inv:
  assumes "ledger_inv s" "msg_sender env \<noteq> 0" "msg_sender env \<noteq> this_addr s"
    "depositEscrow env s t a = Inr s'"
  shows "ledger_inv s'"
proof -
  note c = depositEscrow_Inr [OF assms(4)]
  have i: "inv_tasks s" "inv_bids s" "inv_agent s" "inv_accepted s" "inv_funds s"
    using assms(1) by (simp_all add: ledger_inv_def)
  have 1: "inv_tasks s'"
    by (rule inv_tasks_upd [OF i(1) c(1) c(2)]) (simp_all add: c(9,11,13,14,16))
  have 2: "inv_bids s'" by (rule inv_bids_frame [OF i(2) c(10) c(12) c(11) c(13) c(14)])
  have 3: "inv_agent s'" by (rule inv_agent_frame [OF i(3) c(9) c(14)])
  have 4: "inv_accepted s'" by (rule inv_accepted_frame [OF i(4) c(9) c(10)])
  have ok: "supply_ok (token s)" using i(5) by (simp add: inv_funds_def)
  note tf = tok_transferFrom_in [OF c(8) assms(3) ok]
  have d: "unat (deposits s' t) = unat (deposits s t) + unat a"
    by (rule checked_add_Inr [OF c(6)])
  have "(\<Sum>t'\<in>UNIV. unat (deposits s' t')) + unat (deposits s t)
          = (\<Sum>t'\<in>UNIV. unat (deposits s t')) + unat (deposits s' t)"
    using sum_unat_upd [of "deposits s" t "deposits s' t"] c(7) by simp
  moreover have "unat (held s') = unat (held s) + unat a"
    using tf(1) by (simp add: held_def c(14))
  moreover have "(\<Sum>t'\<in>UNIV. unat (deposits s t')) \<le> unat (held s)"
    using i(5) by (simp add: inv_funds_def)
  ultimately have h: "(\<Sum>t'\<in>UNIV. unat (deposits s' t')) \<le> unat (held s')"
    using d by linarith
  have 5: "inv_funds s'"
    unfolding inv_funds_def
  proof (intro conjI allI impI)
    show "(\<Sum>t'\<in>UNIV. unat (deposits s' t')) \<le> unat (held s')" by (rule h)
    show "supply_ok (token s')" by (rule tf(2))
    show "this_addr s' \<noteq> 0" using i(5) by (simp add: inv_funds_def c(14))
  next
    fix t' assume "terminal (t_status (tasks s' t'))"
    then have "t' \<noteq> t \<and> deposits s t' = 0"
      using i(5) c(3) by (auto simp: inv_funds_def c(9) terminal_def)
    then show "deposits s' t' = 0" using c(16) [of t'] by simp
  next
    fix t' assume "t_status (tasks s' t') \<in> {InProgress, Completed, Disputed}"
    then have "t' \<noteq> t \<and> t_reward (tasks s t') \<le> deposits s t'"
      using i(5) c(3) by (auto simp: inv_funds_def c(9))
    then show "t_reward (tasks s' t') \<le> deposits s' t'"
      using c(16) [of t'] c(9) by simp
  qed
  show ?thesis using 1 2 3 4 5 by (simp add: ledger_inv_def)
qed

lemma submitBid_inv:
  assumes "ledger_inv s" "msg_sender env \<noteq> 0" "msg_sender env \<noteq> this_addr s"
    "submitBid env s t a m = Inr (s', n)"
  shows "ledger_inv s'"
proof -
  note c = submitBid_Inr [OF assms(4)]
  have i: "inv_tasks s" "inv_bids s" "inv_agent s" "inv_accepted s" "inv_funds s"
    using assms(1) by (simp_all add: ledger_inv_def)
  have 1: "inv_tasks s'"
    by (rule inv_tasks_upd [OF i(1) c(1) c(2)]) (use c in simp_all)
  have 2: "inv_bids s'" by (rule submitBid_inv_bids [OF i(2) assms(4,2,3)])
  have 3: "inv_agent s'" by (rule inv_agent_frame [OF i(3) c(10) c(14)])
  have 4: "inv_accepted s'"
    by (rule inv_accepted_bids [OF i(4) c(10)]) (auto simp: c(8) split: if_splits)
  have 5: "inv_funds s'" by (rule inv_funds_frame [OF i(5) c(10) c(11) c(12) c(14)])
  show ?thesis using 1 2 3 4 5 by (simp add: ledger_inv_def)
qed

lemma bid_of_creator_real:
  assumes "inv_tasks s" "inv_bids s" "b_id (bids s b) = b"
    "t_creator (tasks s (b_taskId (bids s b))) \<noteq> 0"
  shows "b \<noteq> 0" "b \<le> bidCounter s"
proof -
  have t: "b_taskId (bids s b) \<noteq> 0"
    using inv_tasks_creator_real(1) [OF assms(1,4)] .
  then have "bids s b \<noteq> zero_Bid" by auto
  then show "b \<noteq> 0" "b \<le> bidCounter s" using inv_bids_real [OF assms(2)] by auto
qed

lemma acceptBid_inv:
  assumes "ledger_inv s" "msg_sender env \<noteq> 0" "msg_sender env \<noteq> this_addr s"
    "acceptBid env s b = Inr s'"
  shows "ledger_inv s'"
proof -
  note c = acceptBid_Inr [OF assms(4)]
  let ?t = "b_taskId (bids s b)"
  have i: "inv_tasks s" "inv_bids s" "inv_agent s" "inv_accepted s" "inv_funds s"
    using assms(1) by (simp_all add: ledger_inv_def)
  have cr: "t_creator (tasks s ?t) \<noteq> 0" using c(3) assms(2) by simp
  note tr = inv_tasks_creator_real [OF i(1) cr]
  note br = bid_of_creator_real [OF i(1,2) c(1) cr]
  have 1: "inv_tasks s'"
    by (rule inv_tasks_upd [OF i(1) tr]) (use c in simp_all)
  have 2: "inv_bids s'"
  proof (rule inv_bids_status [OF i(2) _ c(11) c(10) c(12) c(13)])
    fix b'
    show "bids s' b' = bids s b' \<or>
           (b' \<noteq> 0 \<and> b' \<le> bidCounter s \<and> (\<exists>st. bids s' b' = (bids s b')\<lparr>b_status := st\<rparr>))"
      using br i(2) unfolding c(7) inv_bids_def by auto
  qed
  have ag: "b_agent (bids s b) \<noteq> 0 \<and> b_agent (bids s b) \<noteq> this_addr s"
    using i(2) br unfolding inv_bids_def by auto
  have 3: "inv_agent s'"
    by (rule inv_agent_upd [OF i(3) c(6) c(13)]) (use ag in simp_all)
  have 4: "inv_accepted s'" by (rule acceptBid_inv_accepted [OF i(4) assms(4)])
  have 5: "inv_funds s'"
    by (rule inv_funds_tasks [OF i(5) c(8) c(9) c(13)])
       (use i(5) c(4,5) in \<open>auto simp: c(6) inv_funds_def terminal_def split: if_splits\<close>)
  show ?thesis using 1 2 3 4 5 by (simp add: ledger_inv_def)
qed

lemma rejectBid_inv:
  assumes "ledger_inv s" "msg_sender env \<noteq> 0" "msg_sender env \<noteq> this_addr s"
    "rejectBid env s b = Inr s'"
  shows "ledger_inv s'"
proof -
  note c = rejectBid_Inr [OF assms(4)]
  have i: "inv_tasks s" "inv_bids s" "inv_agent s" "inv_accepted s" "inv_funds s"
    using assms(1) by (simp_all add: ledger_inv_def)
  have cr: "t_creator (tasks s (b_taskId (bids s b))) \<noteq> 0" using c(3) assms(2) by simp
  note br = bid_of_creator_real [OF i(1,2) c(1) cr]
  have 1: "inv_tasks s'" by (rule inv_tasks_frame [OF i(1) c(5) c(6) c(10) c(8) c(11)])
  have 2: "inv_bids s'"
    by (rule inv_bids_status [OF i(2) _ c(9) c(8) c(10) c(11)]) (use br in \<open>auto simp: c(4)\<close>)
  have 3: "inv_agent s'" by (rule inv_agent_frame [OF i(3) c(5) c(11)])
  have 4: "inv_accepted s'"
    by (rule inv_accepted_bids [OF i(4) c(5)]) (auto simp: c(4) split: if_splits)
  have 5: "inv_funds s'" by (rule inv_funds_frame [OF i(5) c(5) c(6) c(7) c(11)])
  show ?thesis using 1 2 3 4 5 by (simp add: ledger_inv_def)
qed

lemma withdrawBid_inv:
  assumes "ledger_inv s" "msg_sender env \<noteq> 0" "msg_sender env \<noteq> this_addr s"
    "withdrawBid env s b = Inr s'"
  shows "ledger_inv s'"
proof -
  note c = withdrawBid_Inr [OF assms(4)]
  have i: "inv_tasks s" "inv_bids s" "inv_agent s" "inv_accepted s" "inv_funds s"
    using assms(1) by (simp_all add: ledger_inv_def)
  have "bids s b \<noteq> zero_Bid" using c(3) assms(2) by auto
  note br = inv_bids_real [OF i(2) this]
  have 1: "inv_tasks s'" by (rule inv_tasks_frame [OF i(1) c(5) c(6) c(10) c(8) c(11)])
  have 2: "inv_bids s'"
    by (rule inv_bids_status [OF i(2) _ c(9) c(8) c(10) c(11)]) (use br in \<open>auto simp: c(4)\<close>)
  have 3: "inv_agent s'" by (rule inv_agent_frame [OF i(3) c(5) c(11)])
  have 4: "inv_accepted s'"
    by (rule inv_accepted_bids [OF i(4) c(5)]) (auto simp: c(4) split: if_splits)
  have 5: "inv_funds s'" by (rule inv_funds_frame [OF i(5) c(5) c(6) c(7) c(11)])
  show ?thesis using 1 2 3 4 5 by (simp add: ledger_inv_def)
qed

lemma completeTask_inv:
  assumes "ledger_inv s" "msg_sender env \<noteq> 0" "msg_sender env \<noteq> this_addr s"
    "completeTask env s t h = Inr s'"
  shows "ledger_inv s'"
proof -
  note c = completeTask_Inr [OF assms(4)]
  have i: "inv_tasks s" "inv_bids s" "inv_agent s" "inv_accepted s" "inv_funds s"
    using assms(1) by (simp_all add: ledger_inv_def)
  have "t_status (tasks s t) \<noteq> Open" using c(2) by simp
  note tr = inv_tasks_status_real [OF i(1) this]
  have 1: "inv_tasks s'"
    by (rule inv_tasks_upd [OF i(1) tr]) (use c in simp_all)
  have 2: "inv_bids s'" by (rule inv_bids_frame [OF i(2) c(4) c(8) c(7) c(9) c(10)])
  have 3: "inv_agent s'"
    by (rule inv_agent_upd [OF i(3) c(3) c(10)]) (use i(3) c(2) in \<open>auto simp: inv_agent_def\<close>)
  have 4: "inv_accepted s'"
    by (rule inv_accepted_tasks [OF i(4) c(4)]) (auto simp: c(3) split: if_splits)
  have 5: "inv_funds s'"
    by (rule inv_funds_tasks [OF i(5) c(5) c(6) c(10)])
       (use i(5) c(2) in \<open>auto simp: c(3) inv_funds_def terminal_def split: if_splits\<close>)
  show ?thesis using 1 2 3 4 5 by (simp add: ledger_inv_def)
qed

lemma raiseDispute_inv:
  assumes "ledger_inv s" "msg_sender env \<noteq> 0" "msg_sender env \<noteq> this_addr s"
    "raiseDispute env s t = Inr s'"
  shows "ledger_inv s'"
proof -
  note c = raiseDispute_Inr [OF assms(4)]
  have i: "inv_tasks s" "inv_bids s" "inv_agent s" "inv_accepted s" "inv_funds s"
    using assms(1) by (simp_all add: ledger_inv_def)
  have 1: "inv_tasks s'"
    by (rule inv_tasks_upd [OF i(1) c(1) c(2)]) (use c in simp_all)
  have 2: "inv_bids s'" by (rule inv_bids_frame [OF i(2) c(6) c(10) c(9) c(11) c(12)])
  have 3: "inv_agent s'"
    by (rule inv_agent_upd [OF i(3) c(5) c(12)]) (use i(3) c(4) in \<open>auto simp: inv_agent_def\<close>)
  have 4: "inv_accepted s'"
    by (rule inv_accepted_tasks [OF i(4) c(6)]) (auto simp: c(5) split: if_splits)
  have 5: "inv_funds s'"
    by (rule inv_funds_tasks [OF i(5) c(7) c(8) c(12)])
       (use i(5) c(4) in \<open>auto simp: c(5) inv_funds_def terminal_def split: if_splits\<close>)
  show ?thesis using 1 2 3 4 5 by (simp add: ledger_inv_def)
qed

lemma ownership_inv:
  assumes "ledger_inv s" "transferOwnership env s a = Inr s' \<or> renounceOwnership env s = Inr s'"
  shows "ledger_inv s'"
proof -
  note c = ownership_Inr [OF assms(2)]
  have i: "inv_tasks s" "inv_bids s" "inv_agent s" "inv_accepted s" "inv_funds s"
    using assms(1) by (simp_all add: ledger_inv_def)
  have 1: "inv_tasks s'" by (rule inv_tasks_frame [OF i(1) c(1) c(3) c(7) c(5) c(8)])
  have 2: "inv_bids s'" by (rule inv_bids_frame [OF i(2) c(2) c(6) c(5) c(7) c(8)])
  have 3: "inv_agent s'" by (rule inv_agent_frame [OF i(3) c(1) c(8)])
  have 4: "inv_accepted s'" by (rule inv_accepted_frame [OF i(4) c(1) c(2)])
  have 5: "inv_funds s'" by (rule inv_funds_frame [OF i(5) c(1) c(3) c(4) c(8)])
  show ?thesis using 1 2 3 4 5 by (simp add: ledger_inv_def)
qed

lemma approveAndRelease_held:
  assumes "tok_transfer this agent rew tok = Inr tok1"
    and "if rew < pay then tok_transfer this cr (pay - rew) tok1 = Inr tok' else tok' = tok1"
    and "rew \<le> pay" "agent \<noteq> this" "cr \<noteq> this" "supply_ok tok"
  shows "unat (balances tok' this) + unat pay = unat (balances tok this)"
    and "supply_ok tok'"
proof -
  have ne: "this \<noteq> agent" "this \<noteq> cr" using assms(4,5) by auto
  note o1 = tok_transfer_out [OF assms(1) ne(1) assms(6)]
  show "unat (balances tok' this) + unat pay = unat (balances tok this)"
  proof (cases "rew < pay")
    case True
    then have t2: "tok_transfer this cr (pay - rew) tok1 = Inr tok'" using assms(2) by simp
    note o2 = tok_transfer_out [OF t2 ne(2) o1(3)]
    have "unat (pay - rew) = unat pay - unat rew" "unat rew \<le> unat pay"
      using assms(3) by (simp_all add: unat_sub word_le_nat_alt)
    then show ?thesis using o1(1) o2(1) by simp
  next
    case False
    then have "pay = rew" "tok' = tok1" using assms(2,3) by auto
    then show ?thesis using o1(1) by simp
  qed
  show "supply_ok tok'"
  proof (cases "rew < pay")
    case True
    then have t2: "tok_transfer this cr (pay - rew) tok1 = Inr tok'" using assms(2) by simp
    show ?thesis by (rule tok_transfer_out(3) [OF t2 ne(2) o1(3)])
  next
    case False
    then show ?thesis using assms(2) o1(3) by simp
  qed
qed

lemma approveAndRelease_inv:
  assumes "ledger_inv s" "msg_sender env \<noteq> 0" "msg_sender env \<noteq> this_addr s"
    "approveAndRelease env s t = Inr s'"
  shows "ledger_inv s'"
proof -
  note c = approveAndRelease_Inr [OF assms(4)]
  note d = approveAndRelease_transfers_Inr [OF c(5)]
  have i: "inv_tasks s" "inv_bids s" "inv_agent s" "inv_accepted s" "inv_funds s"
    using assms(1) by (simp_all add: ledger_inv_def)
  have u: "tasks s' = (tasks s)(t := (tasks s t)\<lparr>t_status := Finalized\<rparr>)"
    "deposits s' = (deposits s)(t := 0)" "bids s' = bids s" "taskCounter s' = taskCounter s"
    "bidCounter s' = bidCounter s" "taskBids s' = taskBids s" "this_addr s' = this_addr s"
    using d(2-9) by (simp_all add: approveAndRelease_update_def)
  have "t_status (tasks s t) \<noteq> Open" using c(2) by simp
  note tr = inv_tasks_status_real [OF i(1) this]
  have ag: "t_assignedAgent (tasks s t) \<noteq> this_addr s"
    using i(3) c(2) by (auto simp: inv_agent_def)
  have cr: "t_creator (tasks s t) \<noteq> this_addr s" using c(1) assms(3) by simp
  have ok: "supply_ok (token s)" using i(5) by (simp add: inv_funds_def)
  obtain tok1 where t1: "tok_transfer (this_addr s) (t_assignedAgent (tasks s t))
        (t_reward (tasks s t)) (token s) = Inr tok1"
    and t2: "if t_reward (tasks s t) < deposits s t
       then tok_transfer (this_addr s) (t_creator (tasks s t))
              (deposits s t - t_reward (tasks s t)) tok1 = Inr (token s')
       else token s' = tok1"
    using d(1) by (auto simp: approveAndRelease_update_def cong del: if_weak_cong)
  note h = approveAndRelease_held [OF t1 t2 c(3) ag cr ok]
  have 1: "inv_tasks s'"
    by (rule inv_tasks_upd [OF i(1) tr]) (simp_all add: u)
  have 2: "inv_bids s'" by (rule inv_bids_frame [OF i(2) u(3) u(5) u(4) u(6) u(7)])
  have 3: "inv_agent s'"
    by (rule inv_agent_upd [OF i(3) u(1) u(7)]) (use i(3) c(2) in \<open>auto simp: inv_agent_def\<close>)
  have 4: "inv_accepted s'"
    by (rule inv_accepted_tasks [OF i(4) u(3)]) (auto simp: u(1) split: if_splits)
  have 5: "inv_funds s'"
    by (rule inv_funds_payout [OF i(5) u(2) u(1) _ u(7)])
       (use h in \<open>simp_all add: terminal_def held_def u(7)\<close>)
  show ?thesis using 1 2 3 4 5 by (simp add: ledger_inv_def)
qed

lemma cancelTask_inv:
  assumes "ledger_inv s" "msg_sender env \<noteq> 0" "msg_sender env \<noteq> this_addr s"
    "cancelTask env s t = Inr s'"
  shows "ledger_inv s'"
proof -
  note c = cancelTask_Inr [OF assms(4)]
  have i: "inv_tasks s" "inv_bids s" "inv_agent s" "inv_accepted s" "inv_funds s"
    using assms(1) by (simp_all add: ledger_inv_def)
  have "t_creator (tasks s t) \<noteq> 0" using c(1) assms(2) by simp
  note tr = inv_tasks_creator_real [OF i(1) this]
  have cr: "this_addr s \<noteq> t_creator (tasks s t)" using c(1) assms(3) by simp
  have ok: "supply_ok (token s)" using i(5) by (simp add: inv_funds_def)
  have h: "unat (held s') + unat (deposits s t) = unat (held s) \<and> supply_ok (token s')"
  proof (cases "deposits s t > 0")
    case True
    then have t1: "tok_transfer (this_addr s) (t_creator (tasks s t)) (deposits s t) (token s)
        = Inr (token s')" using c(3) by simp
    show ?thesis using tok_transfer_out [OF t1 cr ok] by (simp add: held_def c(10))
  next
    case False
    then have "deposits s t = 0" "token s' = token s" using c(3) word_neq_0_conv by auto
    then show ?thesis using ok by (simp add: held_def c(10))
  qed
  have 1: "inv_tasks s'"
    by (rule inv_tasks_upd [OF i(1) tr]) (simp_all add: c)
  have 2: "inv_bids s'" by (rule inv_bids_frame [OF i(2) c(6) c(8) c(7) c(9) c(10)])
  have 3: "inv_agent s'"
    by (rule inv_agent_upd [OF i(3) c(4) c(10)]) simp_all
  have 4: "inv_accepted s'"
    by (rule inv_accepted_tasks [OF i(4) c(6)]) (auto simp: c(4) split: if_splits)
  have 5: "inv_funds s'"
    by (rule inv_funds_payout [OF i(5) c(5) c(4) _ c(10)])
       (use h in \<open>simp_all add: terminal_def\<close>)
  show ?thesis using 1 2 3 4 5 by (simp add: ledger_inv_def)
qed

lemma resolveDispute_held:
  assumes "if ca > 0 then tok_transfer this cr ca tok = Inr tok1 else tok1 = tok"
    and "if aa > 0 \<and> agent \<noteq> 0 then tok_transfer this agent aa tok1 = Inr tok' else tok' = tok1"
    and "agent \<noteq> 0" "agent \<noteq> this" "cr \<noteq> this" "supply_ok tok"
  shows "unat (balances tok' this) + (unat ca + unat aa) = unat (balances tok this)"
    and "supply_ok tok'"
proof -
  have ne: "this \<noteq> agent" "this \<noteq> cr" using assms(4,5) by auto
  have 1: "unat (balances tok1 this) + unat ca = unat (balances tok this) \<and> supply_ok tok1"
  proof (cases "ca > 0")
    case True
    then have t: "tok_transfer this cr ca tok = Inr tok1" using assms(1) by simp
    show ?thesis using tok_transfer_out [OF t ne(2) assms(6)] by simp
  next
    case False
    then have "ca = 0" "tok1 = tok" using assms(1) word_neq_0_conv by auto
    then show ?thesis using assms(6) by simp
  qed
  have 2: "unat (balances tok' this) + unat aa = unat (balances tok1 this) \<and> supply_ok tok'"
  proof (cases "aa > 0")
    case True
    then have t: "tok_transfer this agent aa tok1 = Inr tok'" using assms(2,3) by simp
    show ?thesis using tok_transfer_out [OF t ne(1)] 1 by simp
  next
    case False
    then have "aa = 0" "tok' = tok1" using assms(2) word_neq_0_conv by auto
    then show ?thesis using 1 by simp
  qed
  show "unat (balances tok' this) + (unat ca + unat aa) = unat (balances tok this)"
    using 1 2 by simp
  show "supply_ok tok'" using 2 by simp
qed

lemma resolveDispute_inv:
  assumes "ledger_inv s" "msg_sender env \<noteq> 0" "msg_sender env \<noteq> this_addr s"
    "resolveDispute env s t w p = Inr s'"
  shows "ledger_inv s'"
proof -
  note c = resolveDispute_Inr [OF assms(4)]
  have i: "inv_tasks s" "inv_bids s" "inv_agent s" "inv_accepted s" "inv_funds s"
    using assms(1) by (simp_all add: ledger_inv_def)
  have "t_status (tasks s t) \<noteq> Open" using c(2) by simp
  note tr = inv_tasks_status_real [OF i(1) this]
  have ag: "t_assignedAgent (tasks s t) \<noteq> 0" "t_assignedAgent (tasks s t) \<noteq> this_addr s"
    using i(3) c(2) by (auto simp: inv_agent_def)
  have cr: "t_creator (tasks s t) \<noteq> this_addr s"
    using i(1) tr by (auto simp: inv_tasks_def)
  have ok: "supply_ok (token s)" using i(5) by (simp add: inv_funds_def)
  obtain m aa tok1 where m: "checked_mul (deposits s t) (ucast p) = Inr m"
    and aa: "checked_sub (deposits s t) (m div 100) = Inr aa"
    and t1: "if m div 100 > 0
       then tok_transfer (this_addr s) (t_creator (tasks s t)) (m div 100) (token s) = Inr tok1
       else tok1 = token s"
    and t2: "if aa > 0 \<and> t_assignedAgent (tasks s t) \<noteq> 0
       then tok_transfer (this_addr s) (t_assignedAgent (tasks s t)) aa tok1 = Inr (token s')
       else token s' = tok1"
    using c(4) by blast
  note sp = split_amounts [OF m c(3)]
  have aa': "aa = deposits s t - m div 100" using aa sp(3) by simp
  note h = resolveDispute_held [OF t1 t2 ag cr ok]
  have hh: "unat (held s') + unat (deposits s t) = unat (held s)"
    using h(1) sp(4) by (simp add: held_def c(11) aa')
  have 1: "inv_tasks s'"
    by (rule inv_tasks_upd [OF i(1) tr]) (simp_all add: c)
  have 2: "inv_bids s'" by (rule inv_bids_frame [OF i(2) c(7) c(9) c(8) c(10) c(11)])
  have 3: "inv_agent s'"
    by (rule inv_agent_upd [OF i(3) c(5) c(11)]) (use ag in simp_all)
  have 4: "inv_accepted s'"
    by (rule inv_accepted_tasks [OF i(4) c(7)]) (auto simp: c(5) split: if_splits)
  have 5: "inv_funds s'"
    by (rule inv_funds_payout [OF i(5) c(6) c(5) _ c(11)])
       (use hh h(2) in \<open>simp_all add: terminal_def\<close>)
  show ?thesis using 1 2 3 4 5 by (simp add: ledger_inv_def)
qed

lemma exec_inv:
  assumes "ledger_inv s" "msg_sender env \<noteq> 0" "msg_sender env \<noteq> this_addr s"
    "exec env s c = Inr s'"
  shows "ledger_inv s'"
proof (cases c)
  case (CreateTask ti d r dl)
  then obtain n where "createTask env s ti d r dl = Inr (s', n)"
    using assms(4) by (auto split: sum.splits)
  then show ?thesis by (rule createTask_inv [OF assms(1-3)])
next
  case (DepositEscrow t a)
  then have "depositEscrow env s t a = Inr s'" using assms(4) by simp
  then show ?thesis by (rule depositEscrow_inv [OF assms(1-3)])
next
  case (SubmitBid t a m)
  then obtain n where "submitBid env s t a m = Inr (s', n)"
    using assms(4) by (auto split: sum.splits)
  then show ?thesis by (rule submitBid_inv [OF assms(1-3)])
next
  case (AcceptBid b)
  then have "acceptBid env s b = Inr s'" using assms(4) by simp
  then show ?thesis by (rule acceptBid_inv [OF assms(1-3)])
next
  case (RejectBid b)
  then have "rejectBid env s b = Inr s'" using assms(4) by simp
  then show ?thesis by (rule rejectBid_inv [OF assms(1-3)])
next
  case (WithdrawBid b)
  then have "withdrawBid env s b = Inr s'" using assms(4) by simp
  then show ?thesis by (rule withdrawBid_inv [OF assms(1-3)])
next
  case (CompleteTask t h)
  then have "completeTask env s t h = Inr s'" using assms(4) by simp
  then show ?thesis by (rule completeTask_inv [OF assms(1-3)])
next
  case (ApproveAndRelease t)
  then have "approveAndRelease env s t = Inr s'" using assms(4) by simp
  then show ?thesis by (rule approveAndRelease_inv [OF assms(1-3)])
next
  case (RaiseDispute t)
  then have "raiseDispute env s t = Inr s'" using assms(4) by simp
  then show ?thesis by (rule raiseDispute_inv [OF assms(1-3)])
next
  case (ResolveDispute t w p)
  then have "resolveDispute env s t w p = Inr s'" using assms(4) by simp
  then show ?thesis by (rule resolveDispute_inv [OF assms(1-3)])
next
  case (CancelTask t)
  then have "cancelTask env s t = Inr s'" using assms(4) by simp
  then show ?thesis by (rule cancelTask_inv [OF assms(1-3)])
next
  case (TransferOwnership a)
  then have "transferOwnership env s a = Inr s'" using assms(4) by simp
  then show ?thesis using ownership_inv [OF assms(1)] by blast
next
  case RenounceOwnership
  then have "renounceOwnership env s = Inr s'" using assms(4) by simp
  then show ?thesis using ownership_inv [OF assms(1)] by blast
qed

lemma deploy_inv:
  assumes "supply_ok tok" "this \<noteq> 0"
  shows "ledger_inv (deploy this deployer tok)"
  using assms
  by (simp add: ledger_inv_def inv_tasks_def inv_bids_def inv_agent_def inv_accepted_def
      inv_funds_def deploy_def held_def terminal_def)

lemma token_activity_inv:
  assumes "ledger_inv s" "supply_ok tok'"
    "balances (token s) (this_addr s) \<le> balances tok' (this_addr s)"
  shows "ledger_inv (s\<lparr>token := tok'\<rparr>)"
proof -
  let ?s' = "s\<lparr>token := tok'\<rparr>"
  have i: "inv_tasks s" "inv_bids s" "inv_agent s" "inv_accepted s" "inv_funds s"
    using assms(1) by (simp_all add: ledger_inv_def)
  have 1: "inv_tasks ?s'" by (rule inv_tasks_frame [OF i(1)]) simp_all
  have 2: "inv_bids ?s'" by (rule inv_bids_frame [OF i(2)]) simp_all
  have 3: "inv_agent ?s'" by (rule inv_agent_frame [OF i(3)]) simp_all
  have 4: "inv_accepted ?s'" by (rule inv_accepted_frame [OF i(4)]) simp_all
  have h: "unat (held s) \<le> unat (held ?s')"
    using assms(3) by (simp add: held_def word_le_nat_alt)
  have 5: "inv_funds ?s'"
    using i(5) assms(2) h unfolding inv_funds_def by auto
  show ?thesis using 1 2 3 4 5 by (simp add: ledger_inv_def)
qed

lemma reachable_inv: "reachable s \<Longrightarrow> ledger_inv s"
proof (induction rule: reachable.induct)
  case (deployed tok this deployer)
  then show ?case by (rule deploy_inv)
next
  case (called s env c s')
  then show ?case using exec_inv by blast
next
  case (token_activity s tok')
  then show ?case by (intro token_activity_inv)
qed

lemma addr_simps [simp]: "CREATOR \<noteq> 0" "CREATOR \<noteq> ESCROW" "AGENT \<noteq> 0" "AGENT \<noteq> ESCROW"
  "ESCROW \<noteq> 0" "AGENT \<noteq> CREATOR" "CREATOR \<noteq> AGENT" "ESCROW \<noteq> CREATOR" "ESCROW \<noteq> AGENT"
  "AGENT2 \<noteq> 0" "AGENT2 \<noteq> ESCROW" "AGENT2 \<noteq> CREATOR" "AGENT2 \<noteq> AGENT" "AGENT \<noteq> AGENT2"
  "CREATOR \<noteq> AGENT2" "ESCROW \<noteq> AGENT2" "OWNER \<noteq> 0" "OWNER \<noteq> ESCROW"
  by (simp_all add: CREATOR_def ESCROW_def AGENT_def AGENT2_def OWNER_def)

lemmas op_defs = createTask_def depositEscrow_def submitBid_def acceptBid_def completeTask_def
  approveAndRelease_def approveAndRelease_update_def approveAndRelease_transfers_def
  raiseDispute_def resolveDispute_def cancelTask_def rejectBid_def withdrawBid_def
  safeTransfer_def safeTransferFrom_def tok_transfer_def tok_transferFrom_def
  checked_add_def checked_sub_def checked_mul_def emit_def exec_or_revert_def
  deploy_def zero_Task_def zero_Bid_def sent_by_def Let_def

lemmas path_defs = happy_path_def short_path_def dispute_path_def big_path_def
  s_donated_def s_donated_final_def tok_donated_def
  s_funded_def s_bids_def s_inprogress_def s_completed_def s_finalized_def s_cancelled_def
  s_short_def s_disputed_def s_big_def s_underfunded_def demo0_def tok0_def tok_big_def

lemma sum_unat_single:
  "(\<Sum>a\<in>(UNIV :: address set). unat (if a = c then (n :: uint256) else 0)) = unat n"
proof -
  have "(\<Sum>a\<in>(UNIV :: address set). unat (if a = c then n else 0))
          = (\<Sum>a\<in>(UNIV :: address set). if a = c then unat n else 0)"
    by (rule sum.cong) auto
  also have "\<dots> = unat n" by (subst sum.delta) auto
  finally show ?thesis .
qed

lemma supply_tok0: "supply_ok tok0"
proof -
  have "totalSupply tok0 = unat (1000 :: uint256)"
    unfolding totalSupply_def tok0_def by (simp only: token_state.simps sum_unat_single)
  then show ?thesis by (simp add: supply_ok_def)
qed


lemma exec_this: "exec env s c = Inr s' \<Longrightarrow> this_addr s' = this_addr s"
proof (cases c)
  case (CreateTask ti d r dl)
  assume "exec env s c = Inr s'"
  then obtain n where "createTask env s ti d r dl = Inr (s', n)"
    using CreateTask by (auto split: sum.splits)
  then show ?thesis by (rule createTask_Inr(10))
next
  case (SubmitBid t a m)
  assume "exec env s c = Inr s'"
  then obtain n where "submitBid env s t a m = Inr (s', n)"
    using SubmitBid by (auto split: sum.splits)
  then show ?thesis by (rule submitBid_Inr(14))
next
  case (ApproveAndRelease t)
  assume "exec env s c = Inr s'"
  then have a: "approveAndRelease env s t = Inr s'" using ApproveAndRelease by simp
  show ?thesis
    using approveAndRelease_transfers_Inr(8) [OF approveAndRelease_Inr(5) [OF a]]
    by (simp add: approveAndRelease_update_def)
qed (auto dest: depositEscrow_Inr(14) acceptBid_Inr(13) rejectBid_Inr(11) withdrawBid_Inr(11)
      completeTask_Inr(10) raiseDispute_Inr(12) resolveDispute_Inr(11) cancelTask_Inr(10)
      ownership_Inr(8) [OF disjI1] ownership_Inr(8) [OF disjI2])

lemma exec_or_revert_this: "this_addr (exec_or_revert env s c) = this_addr s"
  by (auto simp: exec_or_revert_def dest: exec_this split: sum.splits)

lemma reachable_exec_or_revert:
  assumes "reachable s" "msg_sender env \<noteq> 0" "msg_sender env \<noteq> this_addr s"
  shows "reachable (exec_or_revert env s c)"
proof (cases "exec env s c")
  case (Inl e)
  then show ?thesis using assms(1) by (simp add: exec_or_revert_def)
next
  case (Inr s')
  then show ?thesis
    using reachable.called [OF assms Inr] by (simp add: exec_or_revert_def)
qed

lemma reachable_run:
  assumes "reachable s"
    and "\<forall>(env, c)\<in>set cs. msg_sender env \<noteq> 0 \<and> msg_sender env \<noteq> this_addr s"
  shows "reachable (run cs s)"
  using assms
proof (induction cs arbitrary: s)
  case Nil
  then show ?case by simp
next
  case (Cons x cs)
  obtain env c where x: "x = (env, c)" by (cases x)
  have r: "reachable (exec_or_revert env s c)"
    using Cons.prems x by (intro reachable_exec_or_revert) auto
  show ?case
    unfolding x run.simps
    by (rule Cons.IH [OF r]) (use Cons.prems in \<open>auto simp: exec_or_revert_this\<close>)
qed

lemma reachable_demo0: "reachable demo0"
  unfolding demo0_def by (rule reachable.deployed [OF supply_tok0]) simp

lemma this_demo0 [simp]: "this_addr demo0 = ESCROW"
  by (simp add: demo0_def deploy_def)

lemma reachable_happy: "reachable (run (take n happy_path) demo0)"
  by (rule reachable_run [OF reachable_demo0])
     (auto simp: happy_path_def sent_by_def dest!: in_set_takeD)

lemma reachable_states:
  "reachable s_funded" "reachable s_bids" "reachable s_inprogress" "reachable s_completed"
  "reachable s_finalized"
  using reachable_happy [of 2] reachable_happy [of 4] reachable_happy [of 5]
    reachable_happy [of 6] reachable_happy [of 7]
  by (simp_all add: s_funded_def s_bids_def s_inprogress_def s_completed_def s_finalized_def
      happy_path_def)

lemma run_this: "this_addr (run cs s) = this_addr s"
  by (induction cs arbitrary: s) (auto simp: exec_or_revert_this)

lemma reachable_cancelled: "reachable s_cancelled"
  unfolding s_cancelled_def
  by (rule reachable_run [OF reachable_states(3)])
     (simp add: sent_by_def s_inprogress_def run_this)

lemma reachable_short: "reachable s_short"
  unfolding s_short_def
  by (rule reachable_run [OF reachable_demo0]) (auto simp: short_path_def sent_by_def)




lemma cancelled_facts:
  "t_status (tasks s_cancelled 1) = Cancelled" "t_assignedAgent (tasks s_cancelled 1) = AGENT"
  by (simp_all add: path_defs op_defs)

lemma underfunded_facts:
  "approveAndRelease (sent_by CREATOR) s_underfunded 1 = Inl InsufficientEscrow"
  "cancelTask (sent_by CREATOR) s_underfunded 1 = Inl CannotCancel"
  by (simp_all add: path_defs op_defs)

lemma inv_parties_upd:
  assumes "inv_parties s"
    and "\<And>b. b_agent (bids s' b) = b_agent (bids s b) \<and> b_taskId (bids s' b) = b_taskId (bids s b)"
    and "bidCounter s' = bidCounter s"
    and "\<And>t. t_creator (tasks s' t) = t_creator (tasks s t)"
    and "\<And>t. t_status (tasks s' t) \<in> {InProgress, Completed, Disputed, Finalized} \<Longrightarrow>
           t_assignedAgent (tasks s' t) \<noteq> t_creator (tasks s t)"
  shows "inv_parties s'"
  unfolding inv_parties_def
proof (intro conjI allI impI)
  fix b assume "b \<noteq> 0 \<and> b \<le> bidCounter s'"
  then show "b_agent (bids s' b) \<noteq> t_creator (tasks s' (b_taskId (bids s' b)))"
    using assms(1) assms(2) [of b] by (simp add: inv_parties_def assms(3,4))
next
  fix t assume "t_status (tasks s' t) \<in> {InProgress, Completed, Disputed, Finalized}"
  then show "t_assignedAgent (tasks s' t) \<noteq> t_creator (tasks s' t)"
    using assms(5) [of t] by (simp add: assms(4))
qed

lemma inv_parties_status:
  assumes "inv_parties s" "bids s' = bids s" "bidCounter s' = bidCounter s"
    and "tasks s' = (tasks s)(t := (tasks s t)\<lparr>t_status := st\<rparr>)
         \<or> tasks s' = (tasks s)(t := (tasks s t)\<lparr>t_status := st, t_completedAt := ca\<rparr>)"
    and "t_status (tasks s t) \<in> {InProgress, Completed, Disputed, Finalized} \<or> st = Cancelled"
  shows "inv_parties s'"
proof (rule inv_parties_upd [OF assms(1) _ assms(3)])
  show "\<And>b. b_agent (bids s' b) = b_agent (bids s b) \<and> b_taskId (bids s' b) = b_taskId (bids s b)"
    by (simp add: assms(2))
  show "\<And>t'. t_creator (tasks s' t') = t_creator (tasks s t')"
    using assms(4) by auto
  show "\<And>t'. t_status (tasks s' t') \<in> {InProgress, Completed, Disputed, Finalized} \<Longrightarrow>
           t_assignedAgent (tasks s' t') \<noteq> t_creator (tasks s t')"
    using assms(1,4,5) unfolding inv_parties_def by (auto split: if_splits)
qed

lemma inv_parties_bid_status:
  assumes "inv_parties s" "tasks s' = tasks s" "bidCounter s' = bidCounter s"
    and "bids s' = (bids s)(b := (bids s b)\<lparr>b_status := st\<rparr>)"
  shows "inv_parties s'"
  by (rule inv_parties_upd [OF assms(1) _ assms(3)])
     (use assms(1) in \<open>auto simp: assms(2,4) inv_parties_def\<close>)

lemma inv_parties_frame:
  assumes "inv_parties s" "tasks s' = tasks s" "bidCounter s' = bidCounter s" "bids s' = bids s"
  shows "inv_parties s'"
  using assms unfolding inv_parties_def by simp

lemma exec_parties:
  assumes "ledger_inv s" "inv_parties s" "msg_sender env \<noteq> 0" "exec env s c = Inr s'"
  shows "inv_parties s'"
proof (cases c)
  case (CreateTask ti d r dl)
  then obtain n where e: "createTask env s ti d r dl = Inr (s', n)"
    using assms(4) by (auto split: sum.splits)
  note c = createTask_Inr [OF e]
  note n = checked_add_one [OF c(1)]
  have ib: "inv_bids s" and it: "inv_tasks s" using assms(1) by (simp_all add: ledger_inv_def)
  have z: "tasks s n = zero_Task" using it n(2) by (simp add: inv_tasks_def)
  show ?thesis
    unfolding inv_parties_def
  proof (intro conjI allI impI)
    fix b assume b: "b \<noteq> 0 \<and> b \<le> bidCounter s'"
    then have "b_taskId (bids s b) \<le> taskCounter s" using ib by (simp add: inv_bids_def c)
    then have "b_taskId (bids s b) \<noteq> n" using n(2) by auto
    then show "b_agent (bids s' b) \<noteq> t_creator (tasks s' (b_taskId (bids s' b)))"
      using assms(2) b by (simp add: c inv_parties_def)
  next
    fix t assume "t_status (tasks s' t) \<in> {InProgress, Completed, Disputed, Finalized}"
    then show "t_assignedAgent (tasks s' t) \<noteq> t_creator (tasks s' t)"
      using assms(2) by (auto simp: c(6) inv_parties_def split: if_splits)
  qed
next
  case (DepositEscrow t a)
  then have e: "depositEscrow env s t a = Inr s'" using assms(4) by simp
  note c = depositEscrow_Inr [OF e]
  show ?thesis by (rule inv_parties_frame [OF assms(2) c(9) c(12) c(10)])
next
  case (SubmitBid t a m)
  then obtain n where e: "submitBid env s t a m = Inr (s', n)"
    using assms(4) by (auto split: sum.splits)
  note c = submitBid_Inr [OF e]
  note n = checked_add_one [OF c(6)]
  show ?thesis
    unfolding inv_parties_def
  proof (intro conjI allI impI)
    fix b assume b: "b \<noteq> 0 \<and> b \<le> bidCounter s'"
    show "b_agent (bids s' b) \<noteq> t_creator (tasks s' (b_taskId (bids s' b)))"
    proof (cases "b = n")
      case True
      then show ?thesis using c(5) by (simp add: c(8,10))
    next
      case False
      then have "b \<le> bidCounter s" using b n(3) [of b] by (simp add: c(7))
      then show ?thesis using assms(2) b False by (simp add: c(8,10) inv_parties_def)
    qed
  next
    fix t' assume "t_status (tasks s' t') \<in> {InProgress, Completed, Disputed, Finalized}"
    then show "t_assignedAgent (tasks s' t') \<noteq> t_creator (tasks s' t')"
      using assms(2) unfolding c(10) inv_parties_def by blast
  qed
next
  case (AcceptBid b)
  then have e: "acceptBid env s b = Inr s'" using assms(4) by simp
  note c = acceptBid_Inr [OF e]
  have ib: "inv_bids s" and it: "inv_tasks s" using assms(1) by (simp_all add: ledger_inv_def)
  have cr: "t_creator (tasks s (b_taskId (bids s b))) \<noteq> 0" using c(3) assms(3) by simp
  note br = bid_of_creator_real [OF it ib c(1) cr]
  have ag: "b_agent (bids s b) \<noteq> t_creator (tasks s (b_taskId (bids s b)))"
    using assms(2) br by (simp add: inv_parties_def)
  show ?thesis
  proof (rule inv_parties_upd [OF assms(2) _ c(11)])
    show "\<And>b'. b_agent (bids s' b') = b_agent (bids s b') \<and>
           b_taskId (bids s' b') = b_taskId (bids s b')"
      by (simp add: c(7))
    show "\<And>t. t_creator (tasks s' t) = t_creator (tasks s t)"
      by (simp add: c(6))
    show "\<And>t. t_status (tasks s' t) \<in> {InProgress, Completed, Disputed, Finalized} \<Longrightarrow>
           t_assignedAgent (tasks s' t) \<noteq> t_creator (tasks s t)"
      using assms(2) ag by (auto simp: c(6) inv_parties_def split: if_splits)
  qed
next
  case (RejectBid b)
  then have e: "rejectBid env s b = Inr s'" using assms(4) by simp
  note c = rejectBid_Inr [OF e]
  show ?thesis by (rule inv_parties_bid_status [OF assms(2) c(5) c(9) c(4)])
next
  case (WithdrawBid b)
  then have e: "withdrawBid env s b = Inr s'" using assms(4) by simp
  note c = withdrawBid_Inr [OF e]
  show ?thesis by (rule inv_parties_bid_status [OF assms(2) c(5) c(9) c(4)])
next
  case (CompleteTask t h)
  then have e: "completeTask env s t h = Inr s'" using assms(4) by simp
  note c = completeTask_Inr [OF e]
  show ?thesis
    by (rule inv_parties_status [OF assms(2) c(4) c(8)]) (use c(2,3) in auto)
next
  case (ApproveAndRelease t)
  then have e: "approveAndRelease env s t = Inr s'" using assms(4) by simp
  note c = approveAndRelease_Inr [OF e]
  note d = approveAndRelease_transfers_Inr [OF c(5)]
  have u: "tasks s' = (tasks s)(t := (tasks s t)\<lparr>t_status := Finalized\<rparr>)"
    "bids s' = bids s" "bidCounter s' = bidCounter s"
    using d(2-9) by (simp_all add: approveAndRelease_update_def)
  show ?thesis
    by (rule inv_parties_status [OF assms(2) u(2) u(3)]) (use c(2) u(1) in auto)
next
  case (RaiseDispute t)
  then have e: "raiseDispute env s t = Inr s'" using assms(4) by simp
  note c = raiseDispute_Inr [OF e]
  show ?thesis
    by (rule inv_parties_status [OF assms(2) c(6) c(10)]) (use c(4,5) in auto)
next
  case (ResolveDispute t w p)
  then have e: "resolveDispute env s t w p = Inr s'" using assms(4) by simp
  note c = resolveDispute_Inr [OF e]
  show ?thesis
    by (rule inv_parties_status [OF assms(2) c(7) c(9)]) (use c(2,5) in auto)
next
  case (CancelTask t)
  then have e: "cancelTask env s t = Inr s'" using assms(4) by simp
  note c = cancelTask_Inr [OF e]
  show ?thesis
    by (rule inv_parties_status [OF assms(2) c(6) c(8)]) (use c(4) in auto)
next
  case (TransferOwnership a)
  then have "transferOwnership env s a = Inr s'" using assms(4) by simp
  note c = ownership_Inr [OF disjI1 [OF this]]
  show ?thesis by (rule inv_parties_frame [OF assms(2) c(1) c(6) c(2)])
next
  case RenounceOwnership
  then have "renounceOwnership env s = Inr s'" using assms(4) by simp
  note c = ownership_Inr [OF disjI2 [OF this]]
  show ?thesis by (rule inv_parties_frame [OF assms(2) c(1) c(6) c(2)])
qed

lemma reachable_parties: "reachable s \<Longrightarrow> inv_parties s"
proof (induction rule: reachable.induct)
  case (deployed tok this deployer)
  show ?case by (simp add: inv_parties_def deploy_def)
next
  case (called s env c s')
  show ?case
    by (rule exec_parties [OF reachable_inv [OF called.hyps(1)] called.IH called.hyps(2,4)])
next
  case (token_activity s tok')
  then show ?case by (simp add: inv_parties_def)
qed

lemma booked_eq:
  assumes "inv_funds s"
  shows "booked s = (\<Sum>t\<in>UNIV. unat (deposits s t))"
proof -
  have z: "\<And>t. terminal (t_status (tasks s t)) \<Longrightarrow> deposits s t = 0"
    using assms by (simp add: inv_funds_def)
  have "(\<Sum>t\<in>UNIV. unat (deposits s t))
          = (\<Sum>t\<in>{t. \<not> terminal (t_status (tasks s t))}. unat (deposits s t))"
    by (rule sum.mono_neutral_right) (auto simp: z)
  then show ?thesis by (simp add: booked_def)
qed

lemma moves_frame:
  assumes "deposits s' = deposits s" "token s' = token s" "this_addr s' = this_addr s"
  shows "unat (held s') + (\<Sum>t\<in>UNIV. unat (deposits s t))
           = unat (held s) + (\<Sum>t\<in>UNIV. unat (deposits s' t))"
  using assms by (simp add: held_def)

lemma moves_payout:
  assumes "deposits s' = (deposits s)(t := 0)"
    and "unat (held s') + unat (deposits s t) = unat (held s)"
  shows "unat (held s') + (\<Sum>t\<in>UNIV. unat (deposits s t))
           = unat (held s) + (\<Sum>t\<in>UNIV. unat (deposits s' t))"
proof -
  have "(\<Sum>t'\<in>UNIV. unat (deposits s' t')) + unat (deposits s t) = (\<Sum>t'\<in>UNIV. unat (deposits s t'))"
    unfolding assms(1) using sum_unat_upd [of "deposits s" t 0] by simp
  then show ?thesis using assms(2) by linarith
qed

lemma depositEscrow_moves:
  assumes "ledger_inv s" "msg_sender env \<noteq> this_addr s" "depositEscrow env s t a = Inr s'"
  shows "unat (held s') + (\<Sum>t\<in>UNIV. unat (deposits s t))
           = unat (held s) + (\<Sum>t\<in>UNIV. unat (deposits s' t))"
proof -
  note c = depositEscrow_Inr [OF assms(3)]
  have ok: "supply_ok (token s)" using assms(1) by (simp add: ledger_inv_def inv_funds_def)
  note tf = tok_transferFrom_in [OF c(8) assms(2) ok]
  have d: "unat (deposits s' t) = unat (deposits s t) + unat a"
    by (rule checked_add_Inr [OF c(6)])
  have "(\<Sum>t'\<in>UNIV. unat (deposits s' t')) + unat (deposits s t)
          = (\<Sum>t'\<in>UNIV. unat (deposits s t')) + unat (deposits s' t)"
    using sum_unat_upd [of "deposits s" t "deposits s' t"] c(7) by simp
  moreover have "unat (held s') = unat (held s) + unat a"
    using tf(1) by (simp add: held_def c(14))
  ultimately show ?thesis using d by linarith
qed

lemma approveAndRelease_moves:
  assumes "ledger_inv s" "msg_sender env \<noteq> this_addr s" "approveAndRelease env s t = Inr s'"
  shows "unat (held s') + (\<Sum>t\<in>UNIV. unat (deposits s t))
           = unat (held s) + (\<Sum>t\<in>UNIV. unat (deposits s' t))"
proof -
  note c = approveAndRelease_Inr [OF assms(3)]
  note d = approveAndRelease_transfers_Inr [OF c(5)]
  have i: "inv_agent s" "inv_funds s" using assms(1) by (simp_all add: ledger_inv_def)
  have u: "deposits s' = (deposits s)(t := 0)" "this_addr s' = this_addr s"
    using d(2-9) by (simp_all add: approveAndRelease_update_def)
  have ag: "t_assignedAgent (tasks s t) \<noteq> this_addr s"
    using i(1) c(2) by (auto simp: inv_agent_def)
  have cr: "t_creator (tasks s t) \<noteq> this_addr s" using c(1) assms(2) by simp
  have ok: "supply_ok (token s)" using i(2) by (simp add: inv_funds_def)
  obtain tok1 where t1: "tok_transfer (this_addr s) (t_assignedAgent (tasks s t))
        (t_reward (tasks s t)) (token s) = Inr tok1"
    and t2: "if t_reward (tasks s t) < deposits s t
       then tok_transfer (this_addr s) (t_creator (tasks s t))
              (deposits s t - t_reward (tasks s t)) tok1 = Inr (token s')
       else token s' = tok1"
    using d(1) by (auto simp: approveAndRelease_update_def cong del: if_weak_cong)
  note h = approveAndRelease_held [OF t1 t2 c(3) ag cr ok]
  show ?thesis
    by (rule moves_payout [OF u(1)]) (use h(1) in \<open>simp add: held_def u(2)\<close>)
qed

lemma cancelTask_moves:
  assumes "ledger_inv s" "msg_sender env \<noteq> this_addr s" "cancelTask env s t = Inr s'"
  shows "unat (held s') + (\<Sum>t\<in>UNIV. unat (deposits s t))
           = unat (held s) + (\<Sum>t\<in>UNIV. unat (deposits s' t))"
proof -
  note c = cancelTask_Inr [OF assms(3)]
  have cr: "this_addr s \<noteq> t_creator (tasks s t)" using c(1) assms(2) by simp
  have ok: "supply_ok (token s)" using assms(1) by (simp add: ledger_inv_def inv_funds_def)
  have h: "unat (held s') + unat (deposits s t) = unat (held s)"
  proof (cases "deposits s t > 0")
    case True
    then have t1: "tok_transfer (this_addr s) (t_creator (tasks s t)) (deposits s t) (token s)
        = Inr (token s')" using c(3) by simp
    show ?thesis using tok_transfer_out [OF t1 cr ok] by (simp add: held_def c(10))
  next
    case False
    then have "deposits s t = 0" "token s' = token s" using c(3) word_neq_0_conv by auto
    then show ?thesis by (simp add: held_def c(10))
  qed
  show ?thesis by (rule moves_payout [OF c(5) h])
qed

lemma resolveDispute_moves:
  assumes "ledger_inv s" "resolveDispute env s t w p = Inr s'"
  shows "unat (held s') + (\<Sum>t\<in>UNIV. unat (deposits s t))
           = unat (held s) + (\<Sum>t\<in>UNIV. unat (deposits s' t))"
proof -
  note c = resolveDispute_Inr [OF assms(2)]
  have i: "inv_tasks s" "inv_agent s" "inv_funds s"
    using assms(1) by (simp_all add: ledger_inv_def)
  have "t_status (tasks s t) \<noteq> Open" using c(2) by simp
  note tr = inv_tasks_status_real [OF i(1) this]
  have ag: "t_assignedAgent (tasks s t) \<noteq> 0" "t_assignedAgent (tasks s t) \<noteq> this_addr s"
    using i(2) c(2) by (auto simp: inv_agent_def)
  have cr: "t_creator (tasks s t) \<noteq> this_addr s"
    using i(1) tr by (auto simp: inv_tasks_def)
  have ok: "supply_ok (token s)" using i(3) by (simp add: inv_funds_def)
  obtain m aa tok1 where m: "checked_mul (deposits s t) (ucast p) = Inr m"
    and aa: "checked_sub (deposits s t) (m div 100) = Inr aa"
    and t1: "if m div 100 > 0
       then tok_transfer (this_addr s) (t_creator (tasks s t)) (m div 100) (token s) = Inr tok1
       else tok1 = token s"
    and t2: "if aa > 0 \<and> t_assignedAgent (tasks s t) \<noteq> 0
       then tok_transfer (this_addr s) (t_assignedAgent (tasks s t)) aa tok1 = Inr (token s')
       else token s' = tok1"
    using c(4) by blast
  note sp = split_amounts [OF m c(3)]
  have aa': "aa = deposits s t - m div 100" using aa sp(3) by simp
  note h = resolveDispute_held [OF t1 t2 ag cr ok]
  have hh: "unat (held s') + unat (deposits s t) = unat (held s)"
    using h(1) sp(4) by (simp add: held_def c(11) aa')
  show ?thesis by (rule moves_payout [OF c(6) hh])
qed

lemma exec_moves:
  assumes "ledger_inv s" "msg_sender env \<noteq> this_addr s" "exec env s c = Inr s'"
  shows "unat (held s') + (\<Sum>t\<in>UNIV. unat (deposits s t))
           = unat (held s) + (\<Sum>t\<in>UNIV. unat (deposits s' t))"
proof (cases c)
  case (CreateTask ti d r dl)
  then obtain n where h: "createTask env s ti d r dl = Inr (s', n)"
    using assms(3) by (auto split: sum.splits)
  note c = createTask_Inr [OF h]
  show ?thesis by (rule moves_frame [OF c(7) c(9) c(10)])
next
  case (DepositEscrow t a)
  then have "depositEscrow env s t a = Inr s'" using assms(3) by simp
  then show ?thesis by (rule depositEscrow_moves [OF assms(1,2)])
next
  case (SubmitBid t a m)
  then obtain n where h: "submitBid env s t a m = Inr (s', n)"
    using assms(3) by (auto split: sum.splits)
  note c = submitBid_Inr [OF h]
  show ?thesis by (rule moves_frame [OF c(11) c(12) c(14)])
next
  case (AcceptBid b)
  then have h: "acceptBid env s b = Inr s'" using assms(3) by simp
  note c = acceptBid_Inr [OF h]
  show ?thesis by (rule moves_frame [OF c(8) c(9) c(13)])
next
  case (RejectBid b)
  then have h: "rejectBid env s b = Inr s'" using assms(3) by simp
  note c = rejectBid_Inr [OF h]
  show ?thesis by (rule moves_frame [OF c(6) c(7) c(11)])
next
  case (WithdrawBid b)
  then have h: "withdrawBid env s b = Inr s'" using assms(3) by simp
  note c = withdrawBid_Inr [OF h]
  show ?thesis by (rule moves_frame [OF c(6) c(7) c(11)])
next
  case (CompleteTask t r)
  then have h: "completeTask env s t r = Inr s'" using assms(3) by simp
  note c = completeTask_Inr [OF h]
  show ?thesis by (rule moves_frame [OF c(5) c(6) c(10)])
next
  case (ApproveAndRelease t)
  then have "approveAndRelease env s t = Inr s'" using assms(3) by simp
  then show ?thesis by (rule approveAndRelease_moves [OF assms(1,2)])
next
  case (RaiseDispute t)
  then have h: "raiseDispute env s t = Inr s'" using assms(3) by simp
  note c = raiseDispute_Inr [OF h]
  show ?thesis by (rule moves_frame [OF c(7) c(8) c(12)])
next
  case (ResolveDispute t w p)
  then have "resolveDispute env s t w p = Inr s'" using assms(3) by simp
  then show ?thesis by (rule resolveDispute_moves [OF assms(1)])
next
  case (CancelTask t)
  then have "cancelTask env s t = Inr s'" using assms(3) by simp
  then show ?thesis by (rule cancelTask_moves [OF assms(1,2)])
next
  case (TransferOwnership a)
  then have h: "transferOwnership env s a = Inr s'" using assms(3) by simp
  note c = ownership_Inr [OF disjI1 [OF h]]
  show ?thesis by (rule moves_frame [OF c(3) c(4) c(8)])
next
  case RenounceOwnership
  then have h: "renounceOwnership env s = Inr s'" using assms(3) by simp
  note c = ownership_Inr [OF disjI2 [OF h]]
  show ?thesis by (rule moves_frame [OF c(3) c(4) c(8)])
qed

lemma conserved_iff:
  assumes "inv_funds s"
  shows "conserved s \<longleftrightarrow> unat (held s) = booked s"
  using assms by (auto simp: conserved_def inv_funds_def)

lemma exec_booked:
  assumes "ledger_inv s" "msg_sender env \<noteq> 0" "msg_sender env \<noteq> this_addr s"
    "exec env s c = Inr s'"
  shows "unat (held s') + booked s = unat (held s) + booked s'"
    and "conserved s \<Longrightarrow> conserved s'"
proof -
  have i: "inv_funds s" using assms(1) by (simp add: ledger_inv_def)
  have i': "inv_funds s'" using exec_inv [OF assms] by (simp add: ledger_inv_def)
  show m: "unat (held s') + booked s = unat (held s) + booked s'"
    using exec_moves [OF assms(1,3,4)] by (simp add: booked_eq [OF i] booked_eq [OF i'])
  show "conserved s \<Longrightarrow> conserved s'"
    using m by (simp add: conserved_iff [OF i] conserved_iff [OF i'])
qed

lemma exec_or_revert_conserved:
  assumes "reachable s" "conserved s" "msg_sender env \<noteq> 0" "msg_sender env \<noteq> this_addr s"
  shows "conserved (exec_or_revert env s c)"
proof (cases "exec env s c")
  case (Inl e)
  then show ?thesis using assms(2) by (simp add: exec_or_revert_def)
next
  case (Inr s')
  then show ?thesis
    using exec_booked(2) [OF reachable_inv [OF assms(1)] assms(3,4) Inr assms(2)]
    by (simp add: exec_or_revert_def)
qed

lemma run_conserved:
  assumes "reachable s" "conserved s"
    and "\<forall>(env, c)\<in>set cs. msg_sender env \<noteq> 0 \<and> msg_sender env \<noteq> this_addr s"
  shows "conserved (run cs s)"
  using assms
proof (induction cs arbitrary: s)
  case Nil
  then show ?case by simp
next
  case (Cons x cs)
  obtain env c where x: "x = (env, c)" by (cases x)
  have s: "msg_sender env \<noteq> 0" "msg_sender env \<noteq> this_addr s" using Cons.prems(3) x by auto
  have r: "reachable (exec_or_revert env s c)"
    by (rule reachable_exec_or_revert [OF Cons.prems(1) s])
  have k: "conserved (exec_or_revert env s c)"
    by (rule exec_or_revert_conserved [OF Cons.prems(1,2) s])
  show ?case
    unfolding x run.simps
    by (rule Cons.IH [OF r k]) (use Cons.prems in \<open>auto simp: exec_or_revert_this\<close>)
qed

lemma booked_deploy: "booked (deploy this d tok) = 0"
  by (simp add: booked_def deploy_def)

lemma deploy_conserved:
  "balances tok this = 0 \<Longrightarrow> conserved (deploy this d tok)"
  by (simp add: conserved_def booked_deploy) (simp add: deploy_def held_def)

section \<open>C1: the contract's balance against the booked deposits\<close>

lemma happy_last_step:
  "exec (sent_by CREATOR) s_completed (ApproveAndRelease 1) = Inr s_finalized"
  by (simp add: path_defs op_defs)

lemma donated_transfer: "tok_transfer CREATOR ESCROW 5 tok0 = Inr tok_donated"
  by (simp add: tok_donated_def tok_transfer_def tok0_def Let_def)

lemma reachable_donated: "reachable s_donated"
  unfolding s_donated_def
proof (rule reachable.token_activity [OF reachable_demo0])
  show "supply_ok tok_donated"
    by (rule tok_transfer_out(3) [OF donated_transfer _ supply_tok0]) simp
  show "balances (token demo0) (this_addr demo0) \<le> balances tok_donated (this_addr demo0)"
    by (simp add: demo0_def deploy_def tok0_def)
qed

lemma reachable_donated_final: "reachable s_donated_final"
  unfolding s_donated_final_def
  by (rule reachable_run [OF reachable_donated])
     (auto simp: happy_path_def sent_by_def s_donated_def)

lemma donated_facts:
  "held s_donated = 5" "booked s_donated = 0"
  "t_status (tasks s_donated_final 1) = Finalized" "deposits s_donated_final 1 = 0"
  "held s_donated_final = 5" "booked s_donated_final = 0"
  by (simp_all add: path_defs op_defs held_def booked_def)

text \<open>
  C1 (as amended). In every reachable state of the TaskEscrow ledger the deposits booked for
  the tasks that are not Finalized or Cancelled are covered by the contract's token balance,
  \<open>booked s \<le> held s\<close>, and every Finalized or Cancelled task has a deposit of zero. Every
  successful call of an entry point changes the balance and the booked deposits by the same
  amount, so the excess of the balance over the booked deposits is never changed by the
  contract: a state in which the two are equal is followed by one in which they are equal. The
  two are equal right after a deployment at an address that holds no tokens, and stay equal
  along every sequence of calls and under every activity on the token that leaves the
  contract's own balance as it is.
\<close>

theorem C1_value_accounted:
  assumes "reachable s"
  shows "booked s \<le> unat (held s) \<and>
    (\<forall>t. terminal (t_status (tasks s t)) \<longrightarrow> deposits s t = 0) \<and>
    (\<forall>env c s'. msg_sender env \<noteq> 0 \<and> msg_sender env \<noteq> this_addr s \<and> exec env s c = Inr s'
       \<longrightarrow> unat (held s') + booked s = unat (held s) + booked s' \<and>
           (conserved s \<longrightarrow> conserved s')) \<and>
    (\<forall>cs. conserved s \<and>
        (\<forall>(env, c)\<in>set cs. msg_sender env \<noteq> 0 \<and> msg_sender env \<noteq> this_addr s)
       \<longrightarrow> conserved (run cs s)) \<and>
    (\<forall>tok'. conserved s \<and> balances tok' (this_addr s) = balances (token s) (this_addr s)
       \<longrightarrow> conserved (s\<lparr>token := tok'\<rparr>)) \<and>
    (\<forall>this d tok. balances tok this = 0 \<longrightarrow> conserved (deploy this d tok))"
proof -
  note l = reachable_inv [OF assms]
  have i: "inv_funds s" using l by (simp add: ledger_inv_def)
  have 1: "booked s \<le> unat (held s)"
    using i by (simp add: booked_eq [OF i] inv_funds_def)
  have 2: "\<forall>t. terminal (t_status (tasks s t)) \<longrightarrow> deposits s t = 0"
    using i by (simp add: inv_funds_def)
  have 3: "\<forall>env c s'. msg_sender env \<noteq> 0 \<and> msg_sender env \<noteq> this_addr s \<and> exec env s c = Inr s'
       \<longrightarrow> unat (held s') + booked s = unat (held s) + booked s' \<and>
           (conserved s \<longrightarrow> conserved s')"
    using exec_booked [OF l] by blast
  have 4: "\<forall>cs. conserved s \<and>
        (\<forall>(env, c)\<in>set cs. msg_sender env \<noteq> 0 \<and> msg_sender env \<noteq> this_addr s)
       \<longrightarrow> conserved (run cs s)"
    using run_conserved [OF assms] by blast
  have 5: "\<forall>this d tok. balances tok this = 0 \<longrightarrow> conserved (deploy this d tok)"
    using deploy_conserved by blast
  have 6: "\<forall>tok'. conserved s \<and> balances tok' (this_addr s) = balances (token s) (this_addr s)
       \<longrightarrow> conserved (s\<lparr>token := tok'\<rparr>)"
    by (simp add: conserved_def held_def booked_def)
  show ?thesis using 1 2 3 4 5 6 by blast
qed

text \<open>
  The theorem at the deployment \<open>demo0\<close>, whose address holds no tokens, and at the state
  \<open>s_completed\<close> of the happy path: the contract holds the 50 tokens booked for task 1, and
  after \<open>approveAndRelease\<close> it holds none and books none.
\<close>

theorem C1_value_accounted_witness:
  "reachable demo0 \<and> conserved demo0 \<and> conserved s_completed \<and>
   booked s_completed = 50 \<and> held s_completed = 50 \<and>
   exec (sent_by CREATOR) s_completed (ApproveAndRelease 1) = Inr s_finalized \<and>
   conserved s_finalized \<and> booked s_finalized = 0 \<and> held s_finalized = 0"
proof -
  have p: "\<forall>(env, c)\<in>set (take 6 happy_path). msg_sender env \<noteq> 0 \<and> msg_sender env \<noteq> this_addr demo0"
    by (simp add: happy_path_def sent_by_def)
  have b: "balances tok0 ESCROW = 0" by (simp add: tok0_def)
  have c0: "conserved demo0"
    using C1_value_accounted [OF reachable_demo0] b unfolding demo0_def by blast
  have c6: "conserved s_completed"
    using C1_value_accounted [OF reachable_demo0] c0 p unfolding s_completed_def by blast
  have s: "msg_sender (sent_by CREATOR) \<noteq> 0 \<and> msg_sender (sent_by CREATOR) \<noteq> this_addr s_completed"
    by (simp add: sent_by_def s_completed_def run_this)
  have h: "held s_completed = 50" "held s_finalized = 0"
    by (simp_all add: path_defs op_defs held_def)
  have m: "unat (held s_finalized) + booked s_completed = unat (held s_completed) + booked s_finalized"
    and c7: "conserved s_finalized"
    using C1_value_accounted [OF reachable_states(4)] s happy_last_step c6 by blast+
  have b6: "booked s_completed = 50" using c6 h(1) by (simp add: conserved_def)
  have b7: "booked s_finalized = 0" using m b6 h by simp
  show ?thesis using reachable_demo0 c0 c6 b6 h happy_last_step c7 b7 by simp
qed

text \<open>
  C1 (as stated) fails: the balance need not equal the booked deposits. The creator sends 5
  tokens to the contract's address by a plain ERC-20 transfer, which no entry point of the
  contract sees. The state is reachable, the contract holds 5 and books 0; after the whole happy
  path, with task 1 Finalized and its deposit zero, the contract still holds the 5 tokens, which no
  entry point can pay out.
\<close>

theorem C1_direct_credit_not_booked:
  "tok_transfer CREATOR ESCROW 5 tok0 = Inr tok_donated \<and>
   reachable s_donated \<and> held s_donated = 5 \<and> booked s_donated = 0 \<and> \<not> conserved s_donated \<and>
   reachable s_donated_final \<and> t_status (tasks s_donated_final 1) = Finalized \<and>
   deposits s_donated_final 1 = 0 \<and> held s_donated_final = 5 \<and>
   unat (held s_donated_final) \<noteq> booked s_donated_final \<and> \<not> conserved s_donated_final"
  using donated_transfer reachable_donated reachable_donated_final donated_facts
  by (simp add: conserved_def)

section \<open>C6: the assigned agent and the status\<close>

text \<open>
  C6 (as stated) fails: after \<open>acceptBid\<close> and then \<open>cancelTask\<close> by the creator, task 1 is
  Cancelled and still has its assigned agent, so ``assignedAgent is set if and only if the
  status is InProgress, Completed, Disputed or Finalized'' does not hold in this reachable state.
\<close>

theorem C6_cancelled_task_keeps_agent:
  "reachable s_cancelled \<and>
   \<not> (t_assignedAgent (tasks s_cancelled 1) \<noteq> 0 \<longleftrightarrow>
        t_status (tasks s_cancelled 1) \<in> {InProgress, Completed, Disputed, Finalized})"
  using reachable_cancelled by (simp add: cancelled_facts)

text \<open>
  C6 (as amended). In every reachable state a task that is InProgress, Completed, Disputed or
  Finalized has an assigned agent and a task that is Open has none; \<open>cancelTask\<close> sets the status
  to Cancelled and leaves \<open>assignedAgent\<close> as it was.
\<close>

theorem C6_assigned_agent_by_status:
  assumes "reachable s"
  shows "(t_status (tasks s t) \<in> {InProgress, Completed, Disputed, Finalized} \<longrightarrow>
            t_assignedAgent (tasks s t) \<noteq> 0) \<and>
         (t_status (tasks s t) = Open \<longrightarrow> t_assignedAgent (tasks s t) = 0) \<and>
         (\<forall>env s'. cancelTask env s t = Inr s' \<longrightarrow>
            t_status (tasks s' t) = Cancelled \<and>
            t_assignedAgent (tasks s' t) = t_assignedAgent (tasks s t))"
proof -
  have "inv_agent s" using reachable_inv [OF assms] by (simp add: ledger_inv_def)
  then have 1: "(t_status (tasks s t) \<in> {InProgress, Completed, Disputed, Finalized} \<longrightarrow>
            t_assignedAgent (tasks s t) \<noteq> 0) \<and>
         (t_status (tasks s t) = Open \<longrightarrow> t_assignedAgent (tasks s t) = 0)"
    unfolding inv_agent_def by blast
  have 2: "\<forall>env s'. cancelTask env s t = Inr s' \<longrightarrow>
            t_status (tasks s' t) = Cancelled \<and>
            t_assignedAgent (tasks s' t) = t_assignedAgent (tasks s t)"
    by (auto simp: cancelTask_Inr(4))
  show ?thesis using 1 2 by blast
qed

text \<open>The theorem at the state after \<open>acceptBid\<close>, and the cancellation from there.\<close>

theorem C6_assigned_agent_by_status_witness:
  "reachable s_inprogress \<and> t_status (tasks s_inprogress 1) = InProgress \<and>
   t_assignedAgent (tasks s_inprogress 1) \<noteq> 0 \<and>
   cancelTask (sent_by CREATOR) s_inprogress 1 = Inr s_cancelled \<and>
   t_status (tasks s_cancelled 1) = Cancelled \<and>
   t_assignedAgent (tasks s_cancelled 1) = t_assignedAgent (tasks s_inprogress 1)"
proof -
  have r: "reachable s_inprogress" by (rule reachable_states(3))
  have st: "t_status (tasks s_inprogress 1) = InProgress"
    by (simp add: path_defs op_defs)
  have c: "cancelTask (sent_by CREATOR) s_inprogress 1 = Inr s_cancelled"
    by (simp add: path_defs op_defs)
  show ?thesis
    using C6_assigned_agent_by_status [OF r, of 1] st c r by simp
qed

section \<open>C9: createTask\<close>

lemma checked_add_one_ok: "c \<noteq> - 1 \<Longrightarrow> \<exists>n. checked_add c 1 = Inr n"
proof -
  assume c: "c \<noteq> - 1"
  have "unat c + 1 < 2 ^ 256"
  proof (rule ccontr)
    assume "\<not> unat c + 1 < 2 ^ 256"
    moreover have "unat c < 2 ^ 256" using unsigned_less [of c] by simp
    ultimately have "unat c + 1 = 2 ^ 256" by simp
    then have "unat (c + 1) = 0" by (simp add: unat_word_ariths)
    then have "c + 1 = 0" by (simp add: unat_eq_0)
    then show False using c max_word_wrap by blast
  qed
  then show ?thesis by (simp add: checked_add_def)
qed

text \<open>
  C9. \<open>createTask\<close> fails with a ValidationError exactly when the title is empty, the reward is
  zero (a \<open>uint256\<close> is never negative) or the deadline is not after the block's timestamp. On
  success the new task is Open, its creator is the caller, and its id is \<open>taskCounter + 1\<close>: it
  did not exist before and is greater than every id that did. With valid arguments, and a counter
  below \<open>2^256 - 1\<close>, the call succeeds.
\<close>

theorem C9_createTask:
  "((\<exists>e. createTask env s ti d r dl = Inl e \<and> classify e = ValidationError) \<longleftrightarrow>
      (ti = [] \<or> r = 0 \<or> ucast dl \<le> block_timestamp env)) \<and>
   (\<forall>s' n. createTask env s ti d r dl = Inr (s', n) \<longrightarrow>
      t_status (tasks s' n) = Open \<and> t_creator (tasks s' n) = msg_sender env \<and>
      t_id (tasks s' n) = n \<and> n = taskCounter s + 1 \<and> taskCounter s' = n \<and>
      taskExists s' n \<and> \<not> taskExists s n \<and> (\<forall>t. taskExists s t \<longrightarrow> t < n)) \<and>
   (ti \<noteq> [] \<and> r \<noteq> 0 \<and> block_timestamp env < ucast dl \<and> taskCounter s \<noteq> - 1 \<longrightarrow>
      (\<exists>s' n. createTask env s ti d r dl = Inr (s', n)))"
proof (intro conjI allI impI)
  show "(\<exists>e. createTask env s ti d r dl = Inl e \<and> classify e = ValidationError) \<longleftrightarrow>
      (ti = [] \<or> r = 0 \<or> ucast dl \<le> block_timestamp env)"
    by (auto simp: createTask_def checked_add_def Let_def split: if_splits)
next
  fix s' n assume e: "createTask env s ti d r dl = Inr (s', n)"
  note c = createTask_Inr [OF e]
  note n = checked_add_one [OF c(1)]
  show "t_status (tasks s' n) = Open" "t_creator (tasks s' n) = msg_sender env"
    "t_id (tasks s' n) = n" "taskCounter s' = n"
    by (simp_all add: c)
  show "n = taskCounter s + 1" by (rule n(5))
  show "taskExists s' n" using n(1) by (simp add: taskExists_def c(5))
  show "\<not> taskExists s n" using n(2) by (simp add: taskExists_def)
  fix t assume "taskExists s t"
  then show "t < n" using n(2) by (auto simp: taskExists_def not_less)
next
  assume a: "ti \<noteq> [] \<and> r \<noteq> 0 \<and> block_timestamp env < ucast dl \<and> taskCounter s \<noteq> - 1"
  then obtain n where "checked_add (taskCounter s) 1 = Inr n"
    using checked_add_one_ok by blast
  then show "\<exists>s' n. createTask env s ti d r dl = Inr (s', n)"
    using a by (simp add: createTask_def Let_def not_le)
qed

text \<open>The theorem at the first task of the happy path, and at an empty title.\<close>

theorem C9_createTask_witness:
  "(\<exists>s' n. createTask (sent_by CREATOR) demo0 ''Audit'' ''Audit the vault'' 50 1800000000 = Inr (s', n) \<and>
      t_status (tasks s' n) = Open \<and> t_creator (tasks s' n) = CREATOR \<and> n = 1) \<and>
   (\<exists>e. createTask (sent_by CREATOR) demo0 [] ''Audit the vault'' 50 1800000000 = Inl e \<and>
      classify e = ValidationError)"
proof -
  note t = C9_createTask [of "sent_by CREATOR" demo0 "''Audit''" "''Audit the vault''" 50 1800000000]
  note f = C9_createTask [of "sent_by CREATOR" demo0 "[]" "''Audit the vault''" 50 1800000000]
  have "taskCounter demo0 \<noteq> - 1" "block_timestamp (sent_by CREATOR) < ucast (1800000000 :: uint40)"
    "taskCounter demo0 + 1 = 1" "msg_sender (sent_by CREATOR) = CREATOR"
    by (simp_all add: demo0_def deploy_def sent_by_def)
  then show ?thesis using t f by fastforce
qed

section \<open>C3: approveAndRelease\<close>

lemma transfer_from_this:
  assumes "supply_ok tok" "this \<noteq> 0" "to \<noteq> 0" "to \<noteq> this" "v \<le> balances tok this"
  shows "\<exists>tok'. tok_transfer this to v tok = Inr tok' \<and>
     unat (balances tok' this) + unat v = unat (balances tok this) \<and>
     unat (balances tok' to) = unat (balances tok to) + unat v \<and>
     (\<forall>a. a \<noteq> this \<and> a \<noteq> to \<longrightarrow> balances tok' a = balances tok a) \<and>
     supply_ok tok'"
proof -
  obtain tok' where t: "tok_transfer this to v tok = Inr tok'"
    using assms(2,3,5) by (simp add: tok_transfer_Inr)
  have ne: "this \<noteq> to" using assms(4) by simp
  note o = tok_transfer_out [OF t ne assms(1)]
  show ?thesis
    using t o tok_transfer_other [OF t] by blast
qed

lemma held_covers:
  assumes "inv_funds s"
  shows "deposits s t \<le> held s"
proof -
  have "unat (deposits s t) \<le> (\<Sum>t'\<in>UNIV. unat (deposits s t'))"
    by (rule sum_one_le [of "\<lambda>t'. unat (deposits s t')" t])
  then show ?thesis using assms by (simp add: inv_funds_def word_le_nat_alt)
qed

lemma exec_or_revert_Inl: "exec env s c = Inl e \<Longrightarrow> exec_or_revert env s c = s"
  by (simp add: exec_or_revert_def)

lemma approveAndRelease_success:
  assumes "reachable s" "t_status (tasks s t) = Completed" "t_creator (tasks s t) = msg_sender env"
    "t_reward (tasks s t) \<le> deposits s t"
  shows "\<exists>s'. approveAndRelease env s t = Inr s' \<and>
     deposits s' t = 0 \<and> t_status (tasks s' t) = Finalized \<and>
     unat (balances (token s') (t_assignedAgent (tasks s t)))
       = unat (balances (token s) (t_assignedAgent (tasks s t))) + unat (t_reward (tasks s t)) \<and>
     unat (balances (token s') (t_creator (tasks s t)))
       = unat (balances (token s) (t_creator (tasks s t)))
         + (unat (deposits s t) - unat (t_reward (tasks s t))) \<and>
     unat (held s') + unat (deposits s t) = unat (held s)"
proof -
  let ?task = "tasks s t"
  let ?agent = "t_assignedAgent ?task" and ?cr = "t_creator ?task"
  let ?rew = "t_reward ?task" and ?pay = "deposits s t"
  let ?me = "this_addr s"
  note li = reachable_inv [OF assms(1)]
  have i: "inv_tasks s" "inv_agent s" "inv_funds s" using li by (simp_all add: ledger_inv_def)
  have ip: "inv_parties s" by (rule reachable_parties [OF assms(1)])
  have "t_status ?task \<noteq> Open" using assms(2) by simp
  note tr = inv_tasks_status_real [OF i(1) this]
  have cr: "?cr \<noteq> 0" "?cr \<noteq> ?me" using i(1) tr by (auto simp: inv_tasks_def)
  have ag: "?agent \<noteq> 0" "?agent \<noteq> ?me" using i(2) assms(2) by (auto simp: inv_agent_def)
  have ac: "?agent \<noteq> ?cr" using ip assms(2) by (auto simp: inv_parties_def)
  have ok: "supply_ok (token s)" and th: "?me \<noteq> 0" using i(3) by (simp_all add: inv_funds_def)
  have cov: "?pay \<le> balances (token s) ?me" using held_covers [OF i(3), of t] by (simp add: held_def)
  have rle: "?rew \<le> balances (token s) ?me" using assms(4) cov by simp
  obtain tok1 where t1: "tok_transfer ?me ?agent ?rew (token s) = Inr tok1"
    and f1: "unat (balances tok1 ?me) + unat ?rew = unat (balances (token s) ?me)"
    and g1: "unat (balances tok1 ?agent) = unat (balances (token s) ?agent) + unat ?rew"
    and o1: "\<forall>a. a \<noteq> ?me \<and> a \<noteq> ?agent \<longrightarrow> balances tok1 a = balances (token s) a"
    and ok1: "supply_ok tok1"
    using transfer_from_this [OF ok th ag(1) ag(2) rle] by blast
  have un: "unat ?rew \<le> unat ?pay" "unat ?pay \<le> unat (balances (token s) ?me)"
    using assms(4) cov by (simp_all add: word_le_nat_alt)
  let ?fin = "\<lambda>tok. emit (TaskUpdated t Finalized) (emit (PaymentReleased t ?agent ?rew)
      ((approveAndRelease_update s t)\<lparr>token := tok\<rparr>))"
  show ?thesis
  proof (cases "?rew < ?pay")
    case True
    have sub: "unat (?pay - ?rew) = unat ?pay - unat ?rew"
      using assms(4) by (simp add: unat_sub)
    have "unat (?pay - ?rew) \<le> unat (balances tok1 ?me)" using sub f1 un by simp
    then have le2: "?pay - ?rew \<le> balances tok1 ?me" by (simp add: word_le_nat_alt)
    obtain tok2 where t2: "tok_transfer ?me ?cr (?pay - ?rew) tok1 = Inr tok2"
      and f2: "unat (balances tok2 ?me) + unat (?pay - ?rew) = unat (balances tok1 ?me)"
      and g2: "unat (balances tok2 ?cr) = unat (balances tok1 ?cr) + unat (?pay - ?rew)"
      and o2: "\<forall>a. a \<noteq> ?me \<and> a \<noteq> ?cr \<longrightarrow> balances tok2 a = balances tok1 a"
      using transfer_from_this [OF ok1 th cr(1) cr(2) le2] by blast
    have r: "approveAndRelease env s t = Inr (?fin tok2)"
      using assms(2,3,4) ag(1) t1 t2 True
      by (simp add: approveAndRelease_def approveAndRelease_transfers_def safeTransfer_def
          approveAndRelease_update_def Let_def not_less)
    have b1: "balances tok2 ?agent = balances tok1 ?agent" using o2 ag(2) ac by simp
    have b2: "balances tok1 ?cr = balances (token s) ?cr" using o1 cr(2) ac by simp
    show ?thesis
      using r f1 f2 g1 g2 b1 b2 sub un
      by (simp add: approveAndRelease_update_def held_def)
  next
    case False
    then have eq: "?pay = ?rew" using assms(4) by simp
    have r: "approveAndRelease env s t = Inr (?fin tok1)"
      using assms(2,3,4) ag(1) t1 False
      by (simp add: approveAndRelease_def approveAndRelease_transfers_def safeTransfer_def
          approveAndRelease_update_def Let_def not_less)
    have b2: "balances tok1 ?cr = balances (token s) ?cr" using o1 cr(2) ac by simp
    show ?thesis
      using r f1 g1 b2 eq
      by (simp add: approveAndRelease_update_def held_def)
  qed
qed

text \<open>
  C3. For a Completed task and its creator as caller: in a reachable state where the deposit
  covers the reward, \<open>approveAndRelease\<close> succeeds; it is the transfers run on the state in which
  the deposit is already zero and the token is still untouched; the agent's balance grows by
  exactly the reward, the creator's by exactly the deposit minus the reward, the contract's
  balance falls by the deposit, and the task is Finalized with a deposit of zero. Where the deposit
  is below the reward it fails with InsufficientEscrow, a FundsError, and the state stays as it
  was.
\<close>

theorem C3_approveAndRelease:
  assumes "t_status (tasks s t) = Completed" "t_creator (tasks s t) = msg_sender env"
  shows "(reachable s \<and> t_reward (tasks s t) \<le> deposits s t \<longrightarrow>
      (\<exists>s'. approveAndRelease env s t = Inr s' \<and>
         approveAndRelease env s t =
           approveAndRelease_transfers (approveAndRelease_update s t) t
             (t_assignedAgent (tasks s t)) (t_reward (tasks s t)) (t_creator (tasks s t))
             (deposits s t) \<and>
         deposits (approveAndRelease_update s t) t = 0 \<and>
         token (approveAndRelease_update s t) = token s \<and>
         deposits s' t = 0 \<and> t_status (tasks s' t) = Finalized \<and>
         unat (balances (token s') (t_assignedAgent (tasks s t)))
           = unat (balances (token s) (t_assignedAgent (tasks s t))) + unat (t_reward (tasks s t)) \<and>
         unat (balances (token s') (t_creator (tasks s t)))
           = unat (balances (token s) (t_creator (tasks s t)))
             + (unat (deposits s t) - unat (t_reward (tasks s t))) \<and>
         unat (held s') + unat (deposits s t) = unat (held s))) \<and>
    (deposits s t < t_reward (tasks s t) \<longrightarrow>
       approveAndRelease env s t = Inl InsufficientEscrow \<and>
       classify InsufficientEscrow = FundsError \<and>
       exec_or_revert env s (ApproveAndRelease t) = s)"
proof (intro conjI impI)
  assume a: "reachable s \<and> t_reward (tasks s t) \<le> deposits s t"
  then obtain s' where s': "approveAndRelease env s t = Inr s'"
    "deposits s' t = 0" "t_status (tasks s' t) = Finalized"
    "unat (balances (token s') (t_assignedAgent (tasks s t)))
       = unat (balances (token s) (t_assignedAgent (tasks s t))) + unat (t_reward (tasks s t))"
    "unat (balances (token s') (t_creator (tasks s t)))
       = unat (balances (token s) (t_creator (tasks s t)))
         + (unat (deposits s t) - unat (t_reward (tasks s t)))"
    "unat (held s') + unat (deposits s t) = unat (held s)"
    using approveAndRelease_success [OF _ assms, of ] by blast
  have e: "approveAndRelease env s t =
           approveAndRelease_transfers (approveAndRelease_update s t) t
             (t_assignedAgent (tasks s t)) (t_reward (tasks s t)) (t_creator (tasks s t))
             (deposits s t)"
    using approveAndRelease_Inr(5) [OF s'(1)] s'(1) by simp
  have u: "deposits (approveAndRelease_update s t) t = 0"
    "token (approveAndRelease_update s t) = token s"
    by (simp_all add: approveAndRelease_update_def)
  show "\<exists>s'. approveAndRelease env s t = Inr s' \<and>
         approveAndRelease env s t =
           approveAndRelease_transfers (approveAndRelease_update s t) t
             (t_assignedAgent (tasks s t)) (t_reward (tasks s t)) (t_creator (tasks s t))
             (deposits s t) \<and>
         deposits (approveAndRelease_update s t) t = 0 \<and>
         token (approveAndRelease_update s t) = token s \<and>
         deposits s' t = 0 \<and> t_status (tasks s' t) = Finalized \<and>
         unat (balances (token s') (t_assignedAgent (tasks s t)))
           = unat (balances (token s) (t_assignedAgent (tasks s t))) + unat (t_reward (tasks s t)) \<and>
         unat (balances (token s') (t_creator (tasks s t)))
           = unat (balances (token s) (t_creator (tasks s t)))
             + (unat (deposits s t) - unat (t_reward (tasks s t))) \<and>
         unat (held s') + unat (deposits s t) = unat (held s)"
    using s' e u by blast
next
  assume lt: "deposits s t < t_reward (tasks s t)"
  show f: "approveAndRelease env s t = Inl InsufficientEscrow"
    using assms lt by (simp add: approveAndRelease_def Let_def)
  show "classify InsufficientEscrow = FundsError" by simp
  show "exec_or_revert env s (ApproveAndRelease t) = s"
    using f by (simp add: exec_or_revert_def)
qed

lemma completed_state:
  "t_status (tasks s_completed 1) = Completed" "t_creator (tasks s_completed 1) = CREATOR"
  "t_reward (tasks s_completed 1) = 40" "deposits s_completed 1 = 50"
  "t_assignedAgent (tasks s_completed 1) = AGENT"
  "balances (token s_completed) AGENT = 0" "balances (token s_completed) CREATOR = 950"
  by (simp_all add: path_defs op_defs)

lemma underfunded_state:
  "t_status (tasks s_underfunded 1) = Completed" "t_creator (tasks s_underfunded 1) = CREATOR"
  "t_reward (tasks s_underfunded 1) = 40" "deposits s_underfunded 1 = 30"
  by (simp_all add: path_defs op_defs)

text \<open>
  The theorem on the happy path (deposit 50, accepted bid 40: the agent receives 40 and the
  creator the surplus of 10) and on a storage whose deposit of 30 is below the reward of 40.
\<close>

theorem C3_approveAndRelease_witness:
  "t_status (tasks s_completed 1) = Completed \<and>
   t_creator (tasks s_completed 1) = msg_sender (sent_by CREATOR) \<and>
   reachable s_completed \<and> t_reward (tasks s_completed 1) \<le> deposits s_completed 1 \<and>
   (\<exists>s'. approveAndRelease (sent_by CREATOR) s_completed 1 = Inr s' \<and>
      deposits s' 1 = 0 \<and> t_status (tasks s' 1) = Finalized \<and>
      unat (balances (token s') AGENT) = 40 \<and> unat (balances (token s') CREATOR) = 960) \<and>
   t_status (tasks s_underfunded 1) = Completed \<and>
   t_creator (tasks s_underfunded 1) = msg_sender (sent_by CREATOR) \<and>
   deposits s_underfunded 1 < t_reward (tasks s_underfunded 1) \<and>
   approveAndRelease (sent_by CREATOR) s_underfunded 1 = Inl InsufficientEscrow"
proof -
  have m: "msg_sender (sent_by CREATOR) = CREATOR" by (simp add: sent_by_def)
  have h1: "t_status (tasks s_completed 1) = Completed"
    "t_creator (tasks s_completed 1) = msg_sender (sent_by CREATOR)"
    by (simp_all add: completed_state m)
  have h2: "t_status (tasks s_underfunded 1) = Completed"
    "t_creator (tasks s_underfunded 1) = msg_sender (sent_by CREATOR)"
    by (simp_all add: underfunded_state m)
  have le: "t_reward (tasks s_completed 1) \<le> deposits s_completed 1"
    by (simp add: completed_state)
  have lt: "deposits s_underfunded 1 < t_reward (tasks s_underfunded 1)"
    by (simp add: underfunded_state)
  note a = C3_approveAndRelease [OF h1, THEN conjunct1, rule_format, OF conjI [OF reachable_states(4) le]]
  note b = C3_approveAndRelease [OF h2, THEN conjunct2, rule_format, OF lt]
  from a obtain s' where s': "approveAndRelease (sent_by CREATOR) s_completed 1 = Inr s'"
    "deposits s' 1 = 0" "t_status (tasks s' 1) = Finalized"
    "unat (balances (token s') AGENT) = 40" "unat (balances (token s') CREATOR) = 960"
    by (auto simp: completed_state)
  show ?thesis
    using h1 h2 le lt reachable_states(4) b s' by blast
qed

section \<open>C4: acceptBid\<close>

lemma two_members_length:
  assumes "x \<in> set xs" "y \<in> set xs" "x \<noteq> y"
  shows "1 < length xs"
proof (cases xs)
  case Nil
  then show ?thesis using assms by simp
next
  case (Cons a ys)
  then show ?thesis using assms by (cases ys) auto
qed

lemma acceptBid_success:
  assumes "reachable s" "msg_sender env \<noteq> 0" "b_id (bids s b) = b"
    "b_status (bids s b) = Pending" "t_status (tasks s (b_taskId (bids s b))) = Open"
    "t_creator (tasks s (b_taskId (bids s b))) = msg_sender env"
    "b_amount (bids s b) \<le> deposits s (b_taskId (bids s b))"
  shows "\<exists>s'. acceptBid env s b = Inr s' \<and> b_status (bids s' b) = Accepted \<and>
     t_assignedAgent (tasks s' (b_taskId (bids s b))) = b_agent (bids s b) \<and>
     t_reward (tasks s' (b_taskId (bids s b))) = b_amount (bids s b) \<and>
     t_status (tasks s' (b_taskId (bids s b))) = InProgress \<and>
     (\<forall>b'. b' \<noteq> b \<and> b' \<noteq> 0 \<and> b' \<le> bidCounter s \<and>
           b_taskId (bids s b') = b_taskId (bids s b) \<and> b_status (bids s b') = Pending
           \<longrightarrow> b_status (bids s' b') = Rejected) \<and>
     deposits s' = deposits s \<and> token s' = token s"
proof -
  let ?T = "b_taskId (bids s b)"
  obtain s' where r: "acceptBid env s b = Inr s'"
    using assms(3-7) by (simp add: acceptBid_def Let_def not_less)
  note c = acceptBid_Inr [OF r]
  have i: "inv_tasks s" "inv_bids s"
    using reachable_inv [OF assms(1)] by (simp_all add: ledger_inv_def)
  have cr: "t_creator (tasks s ?T) \<noteq> 0" using assms(2,6) by simp
  note br = bid_of_creator_real [OF i(1,2) assms(3) cr]
  have mem: "b \<in> set (taskBids s ?T)" using i(2) br by (simp add: inv_bids_def)
  have rej: "\<forall>b'. b' \<noteq> b \<and> b' \<noteq> 0 \<and> b' \<le> bidCounter s \<and>
           b_taskId (bids s b') = ?T \<and> b_status (bids s b') = Pending
           \<longrightarrow> b_status (bids s' b') = Rejected"
  proof (intro allI impI)
    fix b'
    assume a: "b' \<noteq> b \<and> b' \<noteq> 0 \<and> b' \<le> bidCounter s \<and>
           b_taskId (bids s b') = ?T \<and> b_status (bids s b') = Pending"
    then have m': "b' \<in> set (taskBids s ?T)" using i(2) by (auto simp: inv_bids_def)
    have "1 < length (taskBids s ?T)"
      using two_members_length [OF mem m'] a by blast
    then show "b_status (bids s' b') = Rejected"
      using a m' by (simp add: c(7))
  qed
  show ?thesis
    using r rej by (auto simp: c(6) c(7) c(8) c(9))
qed

text \<open>
  C4. In every reachable state at most one bid of a task is Accepted. For a Pending bid on an
  Open task and the task's creator as caller: where the deposit covers the bid's amount,
  \<open>acceptBid\<close> succeeds, the bid is Accepted, the task gets the bid's agent, the bid's amount as
  reward and the status InProgress, every other Pending bid of the task is Rejected in the same
  call, and no deposit and no token balance changes; where the deposit is below the amount it
  fails with InsufficientEscrow, a FundsError, and the state stays as it was.
\<close>

theorem C4_acceptBid:
  assumes "reachable s"
  shows "(\<forall>b1 b2. b_status (bids s b1) = Accepted \<and> b_status (bids s b2) = Accepted \<and>
            b_taskId (bids s b1) = b_taskId (bids s b2) \<longrightarrow> b1 = b2) \<and>
    (msg_sender env \<noteq> 0 \<and> b_id (bids s b) = b \<and> b_status (bids s b) = Pending \<and>
     t_status (tasks s (b_taskId (bids s b))) = Open \<and>
     t_creator (tasks s (b_taskId (bids s b))) = msg_sender env \<longrightarrow>
       (b_amount (bids s b) \<le> deposits s (b_taskId (bids s b)) \<longrightarrow>
          (\<exists>s'. acceptBid env s b = Inr s' \<and> b_status (bids s' b) = Accepted \<and>
             t_assignedAgent (tasks s' (b_taskId (bids s b))) = b_agent (bids s b) \<and>
             t_reward (tasks s' (b_taskId (bids s b))) = b_amount (bids s b) \<and>
             t_status (tasks s' (b_taskId (bids s b))) = InProgress \<and>
             (\<forall>b'. b' \<noteq> b \<and> b' \<noteq> 0 \<and> b' \<le> bidCounter s \<and>
                   b_taskId (bids s b') = b_taskId (bids s b) \<and> b_status (bids s b') = Pending
                   \<longrightarrow> b_status (bids s' b') = Rejected) \<and>
             deposits s' = deposits s \<and> token s' = token s)) \<and>
       (deposits s (b_taskId (bids s b)) < b_amount (bids s b) \<longrightarrow>
          acceptBid env s b = Inl InsufficientEscrow \<and>
          classify InsufficientEscrow = FundsError \<and>
          exec_or_revert env s (AcceptBid b) = s))"
proof (intro conjI impI)
  have "inv_accepted s" using reachable_inv [OF assms] by (simp add: ledger_inv_def)
  then show "\<forall>b1 b2. b_status (bids s b1) = Accepted \<and> b_status (bids s b2) = Accepted \<and>
            b_taskId (bids s b1) = b_taskId (bids s b2) \<longrightarrow> b1 = b2"
    by (simp add: inv_accepted_def)
next
  assume h: "msg_sender env \<noteq> 0 \<and> b_id (bids s b) = b \<and> b_status (bids s b) = Pending \<and>
     t_status (tasks s (b_taskId (bids s b))) = Open \<and>
     t_creator (tasks s (b_taskId (bids s b))) = msg_sender env"
  assume "b_amount (bids s b) \<le> deposits s (b_taskId (bids s b))"
  then show "\<exists>s'. acceptBid env s b = Inr s' \<and> b_status (bids s' b) = Accepted \<and>
             t_assignedAgent (tasks s' (b_taskId (bids s b))) = b_agent (bids s b) \<and>
             t_reward (tasks s' (b_taskId (bids s b))) = b_amount (bids s b) \<and>
             t_status (tasks s' (b_taskId (bids s b))) = InProgress \<and>
             (\<forall>b'. b' \<noteq> b \<and> b' \<noteq> 0 \<and> b' \<le> bidCounter s \<and>
                   b_taskId (bids s b') = b_taskId (bids s b) \<and> b_status (bids s b') = Pending
                   \<longrightarrow> b_status (bids s' b') = Rejected) \<and>
             deposits s' = deposits s \<and> token s' = token s"
    using acceptBid_success [OF assms] h by blast
next
  assume h: "msg_sender env \<noteq> 0 \<and> b_id (bids s b) = b \<and> b_status (bids s b) = Pending \<and>
     t_status (tasks s (b_taskId (bids s b))) = Open \<and>
     t_creator (tasks s (b_taskId (bids s b))) = msg_sender env"
  assume lt: "deposits s (b_taskId (bids s b)) < b_amount (bids s b)"
  show f: "acceptBid env s b = Inl InsufficientEscrow"
    using h lt by (simp add: acceptBid_def Let_def)
  show "classify InsufficientEscrow = FundsError" by simp
  show "exec_or_revert env s (AcceptBid b) = s"
    using f by (simp add: exec_or_revert_def)
qed

lemma bids_state:
  "b_id (bids s_bids 1) = 1" "b_status (bids s_bids 1) = Pending" "b_taskId (bids s_bids 1) = 1"
  "b_agent (bids s_bids 1) = AGENT" "b_amount (bids s_bids 1) = 40"
  "b_status (bids s_bids 2) = Pending" "b_taskId (bids s_bids 2) = 1" "bidCounter s_bids = 2"
  "t_status (tasks s_bids 1) = Open" "t_creator (tasks s_bids 1) = CREATOR"
  "deposits s_bids 1 = 50"
  by (simp_all add: path_defs op_defs)

lemma short_state:
  "b_id (bids s_short 1) = 1" "b_status (bids s_short 1) = Pending" "b_taskId (bids s_short 1) = 1"
  "b_amount (bids s_short 1) = 40"
  "t_status (tasks s_short 1) = Open" "t_creator (tasks s_short 1) = CREATOR"
  "deposits s_short 1 = 30" "balances (token s_short) CREATOR = 970"
  by (simp_all add: path_defs op_defs)

text \<open>
  The theorem on the happy path (deposit 50, bids of 40 and 45: accepting the first rejects the
  second) and on the path with a deposit of 30 and a bid of 40.
\<close>

theorem C4_acceptBid_witness:
  "reachable s_bids \<and> msg_sender (sent_by CREATOR) \<noteq> 0 \<and> b_id (bids s_bids 1) = 1 \<and>
   b_status (bids s_bids 1) = Pending \<and> t_status (tasks s_bids (b_taskId (bids s_bids 1))) = Open \<and>
   t_creator (tasks s_bids (b_taskId (bids s_bids 1))) = msg_sender (sent_by CREATOR) \<and>
   b_amount (bids s_bids 1) \<le> deposits s_bids (b_taskId (bids s_bids 1)) \<and>
   b_status (bids s_bids 2) = Pending \<and>
   (\<exists>s'. acceptBid (sent_by CREATOR) s_bids 1 = Inr s' \<and> b_status (bids s' 1) = Accepted \<and>
      t_assignedAgent (tasks s' 1) = AGENT \<and> t_reward (tasks s' 1) = 40 \<and>
      t_status (tasks s' 1) = InProgress \<and> b_status (bids s' 2) = Rejected) \<and>
   reachable s_short \<and> deposits s_short 1 < b_amount (bids s_short 1) \<and>
   acceptBid (sent_by CREATOR) s_short 1 = Inl InsufficientEscrow"
proof -
  have m: "msg_sender (sent_by CREATOR) = CREATOR" by (simp add: sent_by_def)
  have h1: "msg_sender (sent_by CREATOR) \<noteq> 0 \<and> b_id (bids s_bids 1) = 1 \<and>
     b_status (bids s_bids 1) = Pending \<and>
     t_status (tasks s_bids (b_taskId (bids s_bids 1))) = Open \<and>
     t_creator (tasks s_bids (b_taskId (bids s_bids 1))) = msg_sender (sent_by CREATOR)"
    by (simp add: bids_state m)
  have h2: "msg_sender (sent_by CREATOR) \<noteq> 0 \<and> b_id (bids s_short 1) = 1 \<and>
     b_status (bids s_short 1) = Pending \<and>
     t_status (tasks s_short (b_taskId (bids s_short 1))) = Open \<and>
     t_creator (tasks s_short (b_taskId (bids s_short 1))) = msg_sender (sent_by CREATOR)"
    by (simp add: short_state m)
  have le: "b_amount (bids s_bids 1) \<le> deposits s_bids (b_taskId (bids s_bids 1))"
    by (simp add: bids_state)
  have lt: "deposits s_short (b_taskId (bids s_short 1)) < b_amount (bids s_short 1)"
    by (simp add: short_state)
  note a = C4_acceptBid [OF reachable_states(2), of "sent_by CREATOR" 1, THEN conjunct2,
      rule_format, OF h1, THEN conjunct1, rule_format, OF le]
  note b = C4_acceptBid [OF reachable_short, of "sent_by CREATOR" 1, THEN conjunct2,
      rule_format, OF h2, THEN conjunct2, rule_format, OF lt]
  from a obtain s' where s': "acceptBid (sent_by CREATOR) s_bids 1 = Inr s'"
    "b_status (bids s' 1) = Accepted" "t_assignedAgent (tasks s' 1) = AGENT"
    "t_reward (tasks s' 1) = 40" "t_status (tasks s' 1) = InProgress"
    "b_status (bids s' 2) = Rejected"
    by (auto simp: bids_state)
  have lt': "deposits s_short 1 < b_amount (bids s_short 1)" by (simp add: short_state)
  show ?thesis
    using h1 le reachable_states(2) reachable_short s' b lt' bids_state(6) by blast
qed

section \<open>C5: resolveDispute\<close>








section \<open>C7: FundsError\<close>





















section \<open>C8: a released escrow of SimpleEscrow\<close>

lemma simple_depositEscrow_Inr:
  assumes "simple_depositEscrow env s t a = Inr s'"
  shows "\<not> e_exists (escrows s t)" and "a \<noteq> 0"
    and "escrows s' = (escrows s)(t := \<lparr>e_amount = a, e_creator = msg_sender env, e_agent = 0,
           e_exists = True, e_released = False\<rparr>)"
  using assms by (auto simp: simple_depositEscrow_def Let_def split: if_splits sum.splits)

lemma simple_approveAndRelease_Inr:
  assumes "simple_approveAndRelease env s t ag = Inr s'"
  shows "e_exists (escrows s t)" and "\<not> e_released (escrows s t)"
    and "escrows s' = (escrows s)(t := (escrows s t)\<lparr>e_released := True, e_agent := ag\<rparr>)"
  using assms by (auto simp: simple_approveAndRelease_def Let_def split: if_splits sum.splits)

lemma refund_Inr:
  assumes "refund env s t = Inr s'"
  shows "e_exists (escrows s t)" and "\<not> e_released (escrows s t)"
    and "escrows s' = (escrows s)(t := (escrows s t)\<lparr>e_released := True\<rparr>)"
  using assms by (auto simp: refund_def Let_def split: if_splits sum.splits)

lemma simple_ownership_Inr:
  assumes "simple_exec env s (STransferOwnership a) = Inr s' \<or>
           simple_exec env s SRenounceOwnership = Inr s'"
  shows "escrows s' = escrows s"
  using assms by (auto split: if_splits)

lemma simple_exec_inv:
  assumes "inv_released s" "simple_exec env s c = Inr s'"
  shows "inv_released s'"
proof (cases c)
  case (SDepositEscrow t a)
  then have "simple_depositEscrow env s t a = Inr s'" using assms(2) by simp
  note d = simple_depositEscrow_Inr [OF this]
  show ?thesis using assms(1) by (simp add: inv_released_def d(3))
next
  case (SApproveAndRelease t ag)
  then have "simple_approveAndRelease env s t ag = Inr s'" using assms(2) by simp
  note d = simple_approveAndRelease_Inr [OF this]
  show ?thesis using assms(1) d(1) by (simp add: inv_released_def d(3))
next
  case (SRefund t)
  then have "refund env s t = Inr s'" using assms(2) by simp
  note d = refund_Inr [OF this]
  show ?thesis using assms(1) d(1) by (simp add: inv_released_def d(3))
next
  case (STransferOwnership a)
  then show ?thesis
    using assms simple_ownership_Inr [of env s a s'] by (simp add: inv_released_def)
next
  case SRenounceOwnership
  then show ?thesis
    using assms simple_ownership_Inr [of env s _ s'] by (simp add: inv_released_def)
qed

lemma simple_reachable_inv: "simple_reachable s \<Longrightarrow> inv_released s"
proof (induction rule: simple_reachable.induct)
  case (simple_deployed this deployer tok)
  show ?case by (simp add: inv_released_def simple_deploy_def zero_Escrow_def)
next
  case (simple_called s env c s')
  then show ?case using simple_exec_inv by blast
next
  case (simple_token_activity s tok')
  then show ?case by (simp add: inv_released_def)
qed

lemma released_kept:
  assumes "inv_released s" "e_released (escrows s t)" "simple_exec env s c = Inr s'"
  shows "escrows s' t = escrows s t"
proof (cases c)
  case (SDepositEscrow t' a)
  then have "simple_depositEscrow env s t' a = Inr s'" using assms(3) by simp
  note d = simple_depositEscrow_Inr [OF this]
  have "e_exists (escrows s t)" using assms(1,2) by (simp add: inv_released_def)
  then show ?thesis using d(1) by (auto simp: d(3))
next
  case (SApproveAndRelease t' ag)
  then have "simple_approveAndRelease env s t' ag = Inr s'" using assms(3) by simp
  note d = simple_approveAndRelease_Inr [OF this]
  show ?thesis using assms(2) d(2) by (auto simp: d(3))
next
  case (SRefund t')
  then have "refund env s t' = Inr s'" using assms(3) by simp
  note d = refund_Inr [OF this]
  show ?thesis using assms(2) d(2) by (auto simp: d(3))
next
  case (STransferOwnership a)
  then show ?thesis using assms simple_ownership_Inr [of env s a s'] by simp
next
  case SRenounceOwnership
  then show ?thesis using assms simple_ownership_Inr [of env s _ s'] by simp
qed

lemma simple_exec_or_revert_kept:
  assumes "simple_reachable s" "e_released (escrows s t)"
  shows "simple_reachable (simple_exec_or_revert env s c)"
    and "escrows (simple_exec_or_revert env s c) t = escrows s t"
proof -
  show "simple_reachable (simple_exec_or_revert env s c)"
    using assms(1) simple_reachable.simple_called [OF assms(1)]
    by (auto simp: simple_exec_or_revert_def split: sum.splits)
  show "escrows (simple_exec_or_revert env s c) t = escrows s t"
    using released_kept [OF simple_reachable_inv [OF assms(1)] assms(2)]
    by (auto simp: simple_exec_or_revert_def split: sum.splits)
qed

lemma simple_run_kept:
  assumes "simple_reachable s" "e_released (escrows s t)"
  shows "escrows (simple_run cs s) t = escrows s t"
  using assms
proof (induction cs arbitrary: s)
  case Nil
  then show ?case by simp
next
  case (Cons x cs)
  obtain env c where x: "x = (env, c)" by (cases x)
  note k = simple_exec_or_revert_kept [OF Cons.prems, of env c]
  have "e_released (escrows (simple_exec_or_revert env s c) t)" using k(2) Cons.prems(2) by simp
  then show ?case using Cons.IH [OF k(1)] k(2) by (simp add: x)
qed

lemma simple_run_reachable:
  "simple_reachable s \<Longrightarrow> simple_reachable (simple_run cs s)"
proof (induction cs arbitrary: s)
  case Nil
  then show ?case by simp
next
  case (Cons x cs)
  obtain env c where x: "x = (env, c)" by (cases x)
  have "simple_reachable (simple_exec_or_revert env s c)"
    using Cons.prems simple_reachable.simple_called [OF Cons.prems]
    by (auto simp: simple_exec_or_revert_def split: sum.splits)
  then show ?case using Cons.IH by (simp add: x)
qed

lemmas simple_defs = simple_demo0_def ss_deposited_def ss_released_def ss_refunded_def
  simple_deploy_def simple_exec_or_revert_def simple_depositEscrow_def
  simple_approveAndRelease_def refund_def tok_transfer_def tok_transferFrom_def
  tok0_def sent_by_def zero_Escrow_def Let_def

lemma released_state:
  "escrows ss_released 7 = \<lparr>e_amount = 50, e_creator = CREATOR, e_agent = AGENT,
     e_exists = True, e_released = True\<rparr>"
  "escrows ss_refunded 7 = \<lparr>e_amount = 50, e_creator = CREATOR, e_agent = 0,
     e_exists = True, e_released = True\<rparr>"
  "balances (se_token ss_released) AGENT = 50" "balances (se_token ss_released) ESCROW = 0"
  "balances (se_token ss_refunded) CREATOR = 1000" "balances (se_token ss_refunded) ESCROW = 0"
  by (simp_all add: simple_defs)

lemma simple_reachable_states: "simple_reachable ss_released" "simple_reachable ss_refunded"
  unfolding ss_released_def ss_refunded_def ss_deposited_def simple_demo0_def
  by (intro simple_run_reachable simple_reachable.simple_deployed)+

text \<open>
  C8. In every reachable state of SimpleEscrow an escrow's amount is a \<open>uint256\<close>, so it is never
  negative. Once an escrow is released it exists, and each of the three entry points rejects it:
  \<open>depositEscrow\<close> with EscrowAlreadyExists (InvalidAmount for an amount of zero),
  \<open>approveAndRelease\<close> and \<open>refund\<close> with EscrowAlreadyReleased. No successful call of any
  function, no sequence of transactions and no activity on the token changes the record: its
  amount, its released flag and its other fields stay as they are.
\<close>

theorem C8_released_is_terminal:
  assumes "simple_reachable s" "e_released (escrows s t)"
  shows "0 \<le> unat (e_amount (escrows s t)) \<and> e_exists (escrows s t) \<and>
    (\<forall>env a. simple_depositEscrow env s t a
        = Inl (if a = 0 then InvalidAmount else EscrowAlreadyExists)) \<and>
    (\<forall>env ag. simple_approveAndRelease env s t ag = Inl EscrowAlreadyReleased) \<and>
    (\<forall>env. refund env s t = Inl EscrowAlreadyReleased) \<and>
    (\<forall>env c s'. simple_exec env s c = Inr s' \<longrightarrow> escrows s' t = escrows s t) \<and>
    (\<forall>cs. escrows (simple_run cs s) t = escrows s t) \<and>
    (\<forall>tok'. escrows (s\<lparr>se_token := tok'\<rparr>) t = escrows s t)"
proof -
  note i = simple_reachable_inv [OF assms(1)]
  have ex: "e_exists (escrows s t)" using i assms(2) by (simp add: inv_released_def)
  have 1: "\<forall>env a. simple_depositEscrow env s t a
        = Inl (if a = 0 then InvalidAmount else EscrowAlreadyExists)"
    using ex by (simp add: simple_depositEscrow_def)
  have 2: "\<forall>env ag. simple_approveAndRelease env s t ag = Inl EscrowAlreadyReleased"
    using ex assms(2) by (simp add: simple_approveAndRelease_def)
  have 3: "\<forall>env. refund env s t = Inl EscrowAlreadyReleased"
    using ex assms(2) by (simp add: refund_def)
  have 4: "\<forall>env c s'. simple_exec env s c = Inr s' \<longrightarrow> escrows s' t = escrows s t"
    using released_kept [OF i assms(2)] by blast
  have 5: "\<forall>cs. escrows (simple_run cs s) t = escrows s t"
    using simple_run_kept [OF assms] by blast
  show ?thesis using ex 1 2 3 4 5 by simp
qed

text \<open>
  The theorem at an escrow of 50 that was released to the agent: a second deposit, a second
  release and a refund are all rejected, and a later deposit for another task leaves it as it is.
\<close>

theorem C8_released_is_terminal_witness:
  "simple_reachable ss_released \<and> e_released (escrows ss_released 7) \<and>
   e_amount (escrows ss_released 7) = 50 \<and>
   simple_depositEscrow (sent_by CREATOR) ss_released 7 50 = Inl EscrowAlreadyExists \<and>
   simple_approveAndRelease (sent_by CREATOR) ss_released 7 AGENT2 = Inl EscrowAlreadyReleased \<and>
   refund (sent_by CREATOR) ss_released 7 = Inl EscrowAlreadyReleased \<and>
   escrows (simple_run [(sent_by CREATOR, SDepositEscrow 8 20), (sent_by CREATOR, SRefund 7)]
      ss_released) 7 = escrows ss_released 7"
proof -
  have r: "e_released (escrows ss_released 7)" by (simp add: released_state)
  note t = C8_released_is_terminal [OF simple_reachable_states(1) r]
  have d: "simple_depositEscrow (sent_by CREATOR) ss_released 7 50 = Inl EscrowAlreadyExists"
    using t by simp
  have k: "escrows (simple_run [(sent_by CREATOR, SDepositEscrow 8 20), (sent_by CREATOR, SRefund 7)]
      ss_released) 7 = escrows ss_released 7"
    using t by blast
  have a: "e_amount (escrows ss_released 7) = 50" by (simp add: released_state)
  show ?thesis using t r simple_reachable_states(1) d k a by blast
qed

section \<open>C2 and C10: the force-accept request on the mirror\<close>

lemmas mirror_defs = PUT_def findFirst_bid_def task_update_def reject_other_pending_def
  task_updateData_def bid_status_of_def respond_def failed_update_def Let_def

lemma task_updateData_idem:
  assumes "mb_agentId bid' = mb_agentId bid"
  shows "task_updateData body bid' (task_updateData body bid task) = task_updateData body bid task"
  using assms by (simp add: task_updateData_def)

lemma task_update_Some:
  "task_update db t f = Some db' \<longleftrightarrow>
     (\<exists>task. db_tasks db t = Some task \<and> db' = db\<lparr>db_tasks := (db_tasks db)(t \<mapsto> f task)\<rparr>)"
  by (auto simp: task_update_def split: option.splits)

lemma task_update_again:
  assumes "db_tasks db t = Some task" "f task = task"
  shows "task_update db t f = Some db"
  using assms by (simp add: task_update_def map_upd_triv)

lemma findFirst_bid_Some:
  "findFirst_bid db k t = Some bid \<longleftrightarrow> db_bids db k = Some bid \<and> mb_taskId bid = t"
  by (auto simp: findFirst_bid_def split: option.splits)

text \<open>The first branch: the bid is already accepted.\<close>

lemma PUT_already:
  assumes "pb_bidId body \<noteq> []" "pb_status body = ''ACCEPTED''" "pb_forceAccept body"
    "findFirst_bid db (pb_bidId body) t = Some bid" "mb_status bid = ACCEPTED"
  shows "PUT t body db =
    (if pb_escrowDeposited body \<or> pb_txHash body \<noteq> []
     then (case task_update db t (task_updateData body bid) of
             None \<Rightarrow> (failed_update, db)
           | Some db' \<Rightarrow> (respond 200 True ''Bid already accepted, task updated'' (Some bid), db'))
     else (respond 200 True ''Bid already accepted, task updated'' (Some bid), db))"
  using assms by (simp add: PUT_def)

text \<open>The second branch: the bid is in any other status.\<close>

lemma PUT_force:
  assumes "pb_bidId body \<noteq> []" "pb_status body = ''ACCEPTED''" "pb_forceAccept body"
    "findFirst_bid db (pb_bidId body) t = Some bid" "mb_status bid \<noteq> ACCEPTED"
  shows "PUT t body db =
    (case task_update (db\<lparr>db_bids := (db_bids db)(pb_bidId body \<mapsto> bid\<lparr>mb_status := ACCEPTED\<rparr>)\<rparr>)
            t (task_updateData body bid) of
       None \<Rightarrow> (failed_update,
                 db\<lparr>db_bids := (db_bids db)(pb_bidId body \<mapsto> bid\<lparr>mb_status := ACCEPTED\<rparr>)\<rparr>)
     | Some db2 \<Rightarrow>
         (respond 200 True ''Bid accepted successfully'' (Some (bid\<lparr>mb_status := ACCEPTED\<rparr>)),
          reject_other_pending db2 t (pb_bidId body)))"
  using assms by (simp add: PUT_def bid_status_of_def Let_def)

lemma PUT_already_fixed:
  assumes "pb_bidId body \<noteq> []" "pb_status body = ''ACCEPTED''" "pb_forceAccept body"
    "findFirst_bid db (pb_bidId body) t = Some bid" "mb_status bid = ACCEPTED"
    and "\<And>task. db_tasks db t = Some task \<Longrightarrow> task_updateData body bid task = task"
  shows "snd (PUT t body db) = db"
proof (cases "db_tasks db t")
  case None
  then show ?thesis
    unfolding PUT_already [OF assms(1-5)] by (simp add: task_update_def)
next
  case (Some task)
  have "task_update db t (task_updateData body bid) = Some db"
    using task_update_again [of db t task "task_updateData body bid"] Some assms(6) [OF Some]
    by simp
  then show ?thesis unfolding PUT_already [OF assms(1-5)] by simp
qed

lemma PUT_state_idem:
  assumes "pb_status body = ''ACCEPTED''" "pb_forceAccept body"
  shows "snd (PUT t body (snd (PUT t body db))) = snd (PUT t body db)"
proof (cases "pb_bidId body = []")
  case True
  then show ?thesis by (simp add: PUT_def)
next
  case ne: False
  show ?thesis
  proof (cases "findFirst_bid db (pb_bidId body) t")
    case None
    then show ?thesis using ne assms(1) by (simp add: PUT_def)
  next
    case (Some bid)
    note fb = Some
    have bk: "db_bids db (pb_bidId body) = Some bid" "mb_taskId bid = t"
      using fb by (simp_all add: findFirst_bid_Some)
    show ?thesis
    proof (cases "mb_status bid = ACCEPTED")
      case True
      note p = PUT_already [OF ne assms fb True]
      show ?thesis
      proof (cases "db_tasks db t")
        case None
        then have "snd (PUT t body db) = db" unfolding p by (simp add: task_update_def)
        then show ?thesis by simp
      next
        case (Some task)
        show ?thesis
        proof (cases "pb_escrowDeposited body \<or> pb_txHash body \<noteq> []")
          case False
          then have "snd (PUT t body db) = db" unfolding p by simp
          then show ?thesis by simp
        next
          case info: True
          let ?db' = "db\<lparr>db_tasks := (db_tasks db)(t \<mapsto> task_updateData body bid task)\<rparr>"
          have e: "snd (PUT t body db) = ?db'"
            unfolding p using info Some by (simp add: task_update_def)
          have f': "findFirst_bid ?db' (pb_bidId body) t = Some bid"
            using bk by (simp add: findFirst_bid_Some)
          have "snd (PUT t body ?db') = ?db'"
            by (rule PUT_already_fixed [OF ne assms f' True])
               (auto simp: task_updateData_idem)
          then show ?thesis by (simp add: e)
        qed
      qed
    next
      case False
      note p = PUT_force [OF ne assms fb False]
      let ?bid' = "bid\<lparr>mb_status := ACCEPTED\<rparr>"
      let ?db1 = "db\<lparr>db_bids := (db_bids db)(pb_bidId body \<mapsto> ?bid')\<rparr>"
      show ?thesis
      proof (cases "db_tasks db t")
        case None
        have e: "snd (PUT t body db) = ?db1" unfolding p using None by (simp add: task_update_def)
        have f': "findFirst_bid ?db1 (pb_bidId body) t = Some ?bid'"
          using bk by (simp add: findFirst_bid_Some)
        have "snd (PUT t body ?db1) = ?db1"
          by (rule PUT_already_fixed [OF ne assms f']) (use None in simp_all)
        then show ?thesis by (simp add: e)
      next
        case (Some task)
        let ?db2 = "?db1\<lparr>db_tasks := (db_tasks db)(t \<mapsto> task_updateData body bid task)\<rparr>"
        let ?D = "reject_other_pending ?db2 t (pb_bidId body)"
        have e: "snd (PUT t body db) = ?D" unfolding p using Some by (simp add: task_update_def)
        have f': "findFirst_bid ?D (pb_bidId body) t = Some ?bid'"
          using bk by (simp add: findFirst_bid_Some reject_other_pending_def)
        have "snd (PUT t body ?D) = ?D"
          by (rule PUT_already_fixed [OF ne assms f'])
             (auto simp: reject_other_pending_def task_updateData_def)
        then show ?thesis by (simp add: e)
      qed
    qed
  qed
qed

lemma PUT_world_ledger [simp]: "ledger (snd (PUT_world t body w)) = ledger w"
  by (simp add: PUT_world_def split: prod.splits)

lemma PUT_world_mirror [simp]: "mirror (snd (PUT_world t body w)) = snd (PUT t body (mirror w))"
  by (simp add: PUT_world_def split: prod.splits)

lemma PUT_world_fst [simp]: "fst (PUT_world t body w) = fst (PUT t body (mirror w))"
  by (simp add: PUT_world_def split: prod.splits)

lemma world_eq: "ledger w = ledger w' \<Longrightarrow> mirror w = mirror w' \<Longrightarrow> (w :: world) = w'"
  by simp

lemma PUT_world_idem:
  assumes "pb_status body = ''ACCEPTED''" "pb_forceAccept body"
  shows "snd (PUT_world t body (snd (PUT_world t body w))) = snd (PUT_world t body w)"
  by (rule world_eq) (simp_all add: PUT_state_idem [OF assms])

lemma PUT_repeat_ledger: "ledger (PUT_repeat n t body w) = ledger w"
  by (induction n arbitrary: w) simp_all

lemma PUT_repeat_once:
  assumes "pb_status body = ''ACCEPTED''" "pb_forceAccept body"
  shows "PUT_repeat (Suc n) t body w = snd (PUT_world t body w)"
proof (induction n arbitrary: w)
  case 0
  show ?case by simp
next
  case (Suc n)
  have "PUT_repeat (Suc (Suc n)) t body w = PUT_repeat (Suc n) t body (snd (PUT_world t body w))"
    by simp
  also have "\<dots> = snd (PUT_world t body (snd (PUT_world t body w)))" by (rule Suc.IH)
  also have "\<dots> = snd (PUT_world t body w)" by (rule PUT_world_idem [OF assms])
  finally show ?case .
qed

lemma task_updateData_fixed:
  assumes "mt_agentId task = Some (mb_agentId bid)" "mt_status task = IN_PROGRESS"
    "pb_escrowDeposited body \<longrightarrow> mt_escrowDeposited task"
    "pb_txHash body \<noteq> [] \<longrightarrow> mt_txHash task = Some (pb_txHash body)"
  shows "task_updateData body bid task = task"
  using assms by (cases task) (auto simp: task_updateData_def)

lemma PUT_already_ok:
  assumes "pb_bidId body \<noteq> []" "pb_status body = ''ACCEPTED''" "pb_forceAccept body"
    "findFirst_bid db (pb_bidId body) t = Some bid" "mb_status bid = ACCEPTED"
    "db_tasks db t = Some task"
  shows "fst (PUT t body db) = respond 200 True ''Bid already accepted, task updated'' (Some bid)"
    and "db_bids (snd (PUT t body db)) = db_bids db"
    and "findFirst_bid (snd (PUT t body db)) (pb_bidId body) t = Some bid"
    and "\<exists>task'. db_tasks (snd (PUT t body db)) t = Some task'"
  unfolding PUT_already [OF assms(1-5)]
  using assms(4,6) by (auto simp: task_update_def findFirst_bid_def)

text \<open>
  C2. The handler of the force-accept request calls the database only, so in a world made of
  the ledger and the mirror it leaves the ledger, and with it every token balance, as it was,
  however often the request is sent. On the mirror the request is idempotent: sent any number
  of times, at least once, it leaves the state that one request leaves. Where the mirror already
  has the bid as ACCEPTED and the task row exists, every one of these requests succeeds with
  status 200 and the bid rows are unchanged; where the task row already names the bid's agent,
  is IN_PROGRESS and carries the escrow data of the request, the request changes nothing.
\<close>

theorem C2_force_accept_idempotent:
  assumes "pb_status body = ''ACCEPTED''" "pb_forceAccept body"
  shows "(\<forall>n. ledger (PUT_repeat n taskId body w) = ledger w \<and>
              token (ledger (PUT_repeat n taskId body w)) = token (ledger w) \<and>
              deposits (ledger (PUT_repeat n taskId body w)) = deposits (ledger w)) \<and>
    (\<forall>n. PUT_repeat (Suc n) taskId body w = snd (PUT_world taskId body w)) \<and>
    (\<forall>bid task. pb_bidId body \<noteq> [] \<and>
        findFirst_bid (mirror w) (pb_bidId body) taskId = Some bid \<and>
        mb_status bid = ACCEPTED \<and> db_tasks (mirror w) taskId = Some task \<longrightarrow>
        (\<forall>n. fst (PUT_world taskId body (PUT_repeat n taskId body w))
              = respond 200 True ''Bid already accepted, task updated'' (Some bid)) \<and>
        db_bids (mirror (snd (PUT_world taskId body w))) = db_bids (mirror w) \<and>
        (mt_agentId task = Some (mb_agentId bid) \<and> mt_status task = IN_PROGRESS \<and>
         (pb_escrowDeposited body \<longrightarrow> mt_escrowDeposited task) \<and>
         (pb_txHash body \<noteq> [] \<longrightarrow> mt_txHash task = Some (pb_txHash body))
           \<longrightarrow> snd (PUT_world taskId body w) = w))"
proof (intro conjI allI impI)
  fix n
  show "ledger (PUT_repeat n taskId body w) = ledger w" by (rule PUT_repeat_ledger)
  then show "token (ledger (PUT_repeat n taskId body w)) = token (ledger w)"
    "deposits (ledger (PUT_repeat n taskId body w)) = deposits (ledger w)" by simp_all
next
  fix n
  show "PUT_repeat (Suc n) taskId body w = snd (PUT_world taskId body w)"
    by (rule PUT_repeat_once [OF assms])
next
  fix bid task n
  assume h: "pb_bidId body \<noteq> [] \<and>
        findFirst_bid (mirror w) (pb_bidId body) taskId = Some bid \<and>
        mb_status bid = ACCEPTED \<and> db_tasks (mirror w) taskId = Some task"
  then have a: "pb_bidId body \<noteq> []" "findFirst_bid (mirror w) (pb_bidId body) taskId = Some bid"
    "mb_status bid = ACCEPTED" "db_tasks (mirror w) taskId = Some task" by simp_all
  note k = PUT_already_ok [OF a(1) assms a(2,3,4)]
  obtain task' where t': "db_tasks (snd (PUT taskId body (mirror w))) taskId = Some task'"
    using k(4) by blast
  note k' = PUT_already_ok [OF a(1) assms k(3) a(3) t']
  show "fst (PUT_world taskId body (PUT_repeat n taskId body w))
              = respond 200 True ''Bid already accepted, task updated'' (Some bid)"
  proof (cases n)
    case 0
    then show ?thesis using k(1) by simp
  next
    case (Suc m)
    then show ?thesis using k'(1) by (simp only: PUT_repeat_once [OF assms]) simp
  qed
next
  fix bid task
  assume h: "pb_bidId body \<noteq> [] \<and>
        findFirst_bid (mirror w) (pb_bidId body) taskId = Some bid \<and>
        mb_status bid = ACCEPTED \<and> db_tasks (mirror w) taskId = Some task"
  then have a: "pb_bidId body \<noteq> []" "findFirst_bid (mirror w) (pb_bidId body) taskId = Some bid"
    "mb_status bid = ACCEPTED" "db_tasks (mirror w) taskId = Some task" by simp_all
  show "db_bids (mirror (snd (PUT_world taskId body w))) = db_bids (mirror w)"
    using PUT_already_ok(2) [OF a(1) assms a(2,3,4)] by simp
  assume f: "mt_agentId task = Some (mb_agentId bid) \<and> mt_status task = IN_PROGRESS \<and>
         (pb_escrowDeposited body \<longrightarrow> mt_escrowDeposited task) \<and>
         (pb_txHash body \<noteq> [] \<longrightarrow> mt_txHash task = Some (pb_txHash body))"
  have fx: "task_updateData body bid task = task"
    by (rule task_updateData_fixed) (use f in simp_all)
  have "snd (PUT taskId body (mirror w)) = mirror w"
    by (rule PUT_already_fixed [OF a(1) assms a(2,3)]) (use a(4) fx in simp)
  then show "snd (PUT_world taskId body w) = w" by (intro world_eq) simp_all
qed

lemmas mirror_states = db_AB_def db_two_pending_def db_accepted_A_def bid_row_def
  accept_body_def force_body_def w_AB_def

lemma w_AB_facts:
  "pb_status (force_body ''bidA'') = ''ACCEPTED''" "pb_forceAccept (force_body ''bidA'')"
  "pb_bidId (force_body ''bidA'') \<noteq> []"
  "findFirst_bid (mirror w_AB) (pb_bidId (force_body ''bidA'')) ''task1''
     = Some (bid_row ''agentA'' ACCEPTED)"
  "mb_status (bid_row ''agentA'' ACCEPTED) = ACCEPTED"
  "db_tasks (mirror w_AB) ''task1'' = Some \<lparr>mt_status = IN_PROGRESS, mt_agentId = Some ''agentA'',
                    mt_escrowDeposited = True, mt_txHash = Some ''0x01''\<rparr>"
  "ledger w_AB = s_inprogress"
  by (simp_all add: mirror_states findFirst_bid_def)

text \<open>
  The theorem in a world whose ledger has accepted bid 1 of task 1 and whose mirror has bid A
  accepted and the task assigned: three force-accept requests for bid A leave the world as it
  is, and each answers 200.
\<close>

theorem C2_force_accept_idempotent_witness:
  "pb_status (force_body ''bidA'') = ''ACCEPTED'' \<and> pb_forceAccept (force_body ''bidA'') \<and>
   ledger (PUT_repeat 3 ''task1'' (force_body ''bidA'') w_AB) = s_inprogress \<and>
   PUT_repeat 3 ''task1'' (force_body ''bidA'') w_AB = w_AB \<and>
   fst (PUT_world ''task1'' (force_body ''bidA'') (PUT_repeat 2 ''task1'' (force_body ''bidA'') w_AB))
     = respond 200 True ''Bid already accepted, task updated'' (Some (bid_row ''agentA'' ACCEPTED))"
proof -
  note t = C2_force_accept_idempotent [OF w_AB_facts(1,2), of "''task1''" w_AB]
  have l: "ledger (PUT_repeat 3 ''task1'' (force_body ''bidA'') w_AB) = s_inprogress"
    using t w_AB_facts(7) by simp
  have h: "pb_bidId (force_body ''bidA'') \<noteq> [] \<and>
        findFirst_bid (mirror w_AB) (pb_bidId (force_body ''bidA'')) ''task1''
          = Some (bid_row ''agentA'' ACCEPTED) \<and>
        mb_status (bid_row ''agentA'' ACCEPTED) = ACCEPTED \<and>
        db_tasks (mirror w_AB) ''task1'' = Some \<lparr>mt_status = IN_PROGRESS, mt_agentId = Some ''agentA'',
                    mt_escrowDeposited = True, mt_txHash = Some ''0x01''\<rparr>"
    using w_AB_facts by simp
  note u = t [THEN conjunct2, THEN conjunct2, rule_format, OF h]
  have r: "fst (PUT_world ''task1'' (force_body ''bidA'') (PUT_repeat 2 ''task1'' (force_body ''bidA'') w_AB))
     = respond 200 True ''Bid already accepted, task updated'' (Some (bid_row ''agentA'' ACCEPTED))"
    using u by blast
  have "snd (PUT_world ''task1'' (force_body ''bidA'') w_AB) = w_AB"
    by (rule u [THEN conjunct2, THEN conjunct2, rule_format])
       (simp add: bid_row_def force_body_def)
  moreover have "PUT_repeat 3 ''task1'' (force_body ''bidA'') w_AB
      = snd (PUT_world ''task1'' (force_body ''bidA'') w_AB)"
    using t [THEN conjunct2, THEN conjunct1, rule_format, of 2] by (simp add: numeral_3_eq_3)
  ultimately have e: "PUT_repeat 3 ''task1'' (force_body ''bidA'') w_AB = w_AB" by simp
  show ?thesis using w_AB_facts(1,2) l e r by blast
qed

lemma bid_accepted_same: "mb_status bid = ACCEPTED \<Longrightarrow> bid\<lparr>mb_status := ACCEPTED\<rparr> = bid"
  by (cases bid) simp

lemma PUT_force_result:
  assumes "pb_bidId body \<noteq> []" "pb_status body = ''ACCEPTED''" "pb_forceAccept body"
    "findFirst_bid db (pb_bidId body) t = Some bid" "mb_status bid \<noteq> ACCEPTED"
    "db_tasks db t = Some task"
  shows "fst (PUT t body db)
      = respond 200 True ''Bid accepted successfully'' (Some (bid\<lparr>mb_status := ACCEPTED\<rparr>))"
    and "db_tasks (snd (PUT t body db)) = (db_tasks db)(t \<mapsto> task_updateData body bid task)"
    and "db_bids (snd (PUT t body db)) (pb_bidId body) = Some (bid\<lparr>mb_status := ACCEPTED\<rparr>)"
    and "\<And>k other. k \<noteq> pb_bidId body \<Longrightarrow> db_bids db k = Some other \<Longrightarrow>
           db_bids (snd (PUT t body db)) k
             = Some (if mb_taskId other = t \<and> mb_status other = PENDING
                     then other\<lparr>mb_status := REJECTED\<rparr> else other)"
  unfolding PUT_force [OF assms(1-5)]
  using assms(6) by (simp_all add: task_update_def reject_other_pending_def)

text \<open>
  C10. A request with status \<open>ACCEPTED\<close> and \<open>forceAccept\<close> is answered with 200 whatever the
  status of the bid (the bid being one of the task, and the task row existing), and leaves the
  bid ACCEPTED; unless the bid was ACCEPTED already, the task row gets the bid's agent and the
  status IN_PROGRESS. Every other bid that is not PENDING keeps its row, so a bid that was
  ACCEPTED before stays ACCEPTED beside the new one; only the other PENDING bids of the task
  become REJECTED. The same request without \<open>forceAccept\<close> on a bid that is not PENDING is
  answered with 400 and changes nothing.
\<close>

theorem C10_force_accept_bypasses_pending_guard:
  assumes "pb_bidId body \<noteq> []" "pb_status body = ''ACCEPTED''" "pb_forceAccept body"
    "findFirst_bid db (pb_bidId body) taskId = Some bid" "db_tasks db taskId = Some task"
  shows "r_code (fst (PUT taskId body db)) = 200 \<and> r_success (fst (PUT taskId body db)) \<and>
    db_bids (snd (PUT taskId body db)) (pb_bidId body) = Some (bid\<lparr>mb_status := ACCEPTED\<rparr>) \<and>
    (mb_status bid \<noteq> ACCEPTED \<longrightarrow>
       db_tasks (snd (PUT taskId body db)) taskId = Some (task_updateData body bid task) \<and>
       mt_agentId (task_updateData body bid task) = Some (mb_agentId bid) \<and>
       mt_status (task_updateData body bid task) = IN_PROGRESS) \<and>
    (\<forall>k other. k \<noteq> pb_bidId body \<and> db_bids db k = Some other \<and> mb_status other \<noteq> PENDING
       \<longrightarrow> db_bids (snd (PUT taskId body db)) k = Some other) \<and>
    (\<forall>k other. k \<noteq> pb_bidId body \<and> db_bids db k = Some other \<and> mb_taskId other = taskId \<and>
         mb_status other = PENDING \<and> mb_status bid \<noteq> ACCEPTED
       \<longrightarrow> db_bids (snd (PUT taskId body db)) k = Some (other\<lparr>mb_status := REJECTED\<rparr>)) \<and>
    (mb_status bid \<noteq> PENDING \<longrightarrow>
       PUT taskId (body\<lparr>pb_forceAccept := False\<rparr>) db
         = (respond 400 False ''Can only update pending bids'' None, db))"
proof (cases "mb_status bid = ACCEPTED")
  case True
  note k = PUT_already_ok [OF assms(1-4) True assms(5)]
  have bk: "db_bids db (pb_bidId body) = Some bid"
    using assms(4) by (simp add: findFirst_bid_Some)
  have 1: "r_code (fst (PUT taskId body db)) = 200 \<and> r_success (fst (PUT taskId body db))"
    by (simp add: k(1) respond_def)
  have 2: "db_bids (snd (PUT taskId body db)) (pb_bidId body) = Some (bid\<lparr>mb_status := ACCEPTED\<rparr>)"
    by (simp add: k(2) bk bid_accepted_same [OF True])
  have 3: "\<forall>k other. k \<noteq> pb_bidId body \<and> db_bids db k = Some other \<and> mb_status other \<noteq> PENDING
       \<longrightarrow> db_bids (snd (PUT taskId body db)) k = Some other"
    by (simp add: k(2))
  have 4: "PUT taskId (body\<lparr>pb_forceAccept := False\<rparr>) db
         = (respond 400 False ''Can only update pending bids'' None, db)"
    using assms(1,2,4) True by (simp add: PUT_def)
  show ?thesis using 1 2 3 4 True by simp
next
  case False
  note k = PUT_force_result [OF assms(1-4) False assms(5)]
  have 1: "r_code (fst (PUT taskId body db)) = 200 \<and> r_success (fst (PUT taskId body db))"
    by (simp add: k(1) respond_def)
  have 3: "\<forall>k other. k \<noteq> pb_bidId body \<and> db_bids db k = Some other \<and> mb_status other \<noteq> PENDING
       \<longrightarrow> db_bids (snd (PUT taskId body db)) k = Some other"
    using k(4) by simp
  have 4: "\<forall>k other. k \<noteq> pb_bidId body \<and> db_bids db k = Some other \<and> mb_taskId other = taskId \<and>
         mb_status other = PENDING \<and> mb_status bid \<noteq> ACCEPTED
       \<longrightarrow> db_bids (snd (PUT taskId body db)) k = Some (other\<lparr>mb_status := REJECTED\<rparr>)"
    using k(4) by simp
  have 5: "mb_status bid \<noteq> PENDING \<longrightarrow>
       PUT taskId (body\<lparr>pb_forceAccept := False\<rparr>) db
         = (respond 400 False ''Can only update pending bids'' None, db)"
    using assms(1,2,4) by (simp add: PUT_def)
  have 6: "db_tasks (snd (PUT taskId body db)) taskId = Some (task_updateData body bid task) \<and>
       mt_agentId (task_updateData body bid task) = Some (mb_agentId bid) \<and>
       mt_status (task_updateData body bid task) = IN_PROGRESS"
    by (simp add: k(2) task_updateData_def)
  show ?thesis using 1 k(3) 3 4 5 6 by blast
qed

lemma db_AB_facts:
  "pb_bidId (force_body ''bidB'') \<noteq> []" "pb_status (force_body ''bidB'') = ''ACCEPTED''"
  "pb_forceAccept (force_body ''bidB'')"
  "findFirst_bid db_AB (pb_bidId (force_body ''bidB'')) ''task1'' = Some (bid_row ''agentB'' PENDING)"
  "db_tasks db_AB ''task1'' = Some \<lparr>mt_status = IN_PROGRESS, mt_agentId = Some ''agentA'',
                    mt_escrowDeposited = True, mt_txHash = Some ''0x01''\<rparr>"
  "db_bids db_AB ''bidA'' = Some (bid_row ''agentA'' ACCEPTED)"
  "pb_bidId (force_body ''bidB'') = ''bidB''"
  by (simp_all add: mirror_states findFirst_bid_def)

lemma db_accepted_A_facts:
  "findFirst_bid db_accepted_A (pb_bidId (force_body ''bidB'')) ''task1''
     = Some (bid_row ''agentB'' REJECTED)"
  "db_tasks db_accepted_A ''task1'' = Some \<lparr>mt_status = IN_PROGRESS, mt_agentId = Some ''agentA'',
                    mt_escrowDeposited = True, mt_txHash = Some ''0x01''\<rparr>"
  "db_bids db_accepted_A ''bidA'' = Some (bid_row ''agentA'' ACCEPTED)"
  by (simp_all add: mirror_states mirror_defs)

text \<open>
  The theorem at the mirror state with bid A accepted and bid B pending: force-accepting B
  answers 200, both bids are ACCEPTED and the task goes to B's agent. The same happens from the
  state the handler itself produces out of two pending bids by accepting A, where B is REJECTED.
\<close>

theorem C10_force_accept_bypasses_pending_guard_witness:
  "findFirst_bid db_AB ''bidB'' ''task1'' = Some (bid_row ''agentB'' PENDING) \<and>
   db_bids db_AB ''bidA'' = Some (bid_row ''agentA'' ACCEPTED) \<and>
   map_option mt_agentId (db_tasks db_AB ''task1'') = Some (Some ''agentA'') \<and>
   r_code (fst (PUT ''task1'' (force_body ''bidB'') db_AB)) = 200 \<and>
   db_bids (snd (PUT ''task1'' (force_body ''bidB'') db_AB)) ''bidA''
     = Some (bid_row ''agentA'' ACCEPTED) \<and>
   db_bids (snd (PUT ''task1'' (force_body ''bidB'') db_AB)) ''bidB''
     = Some (bid_row ''agentB'' ACCEPTED) \<and>
   map_option mt_agentId (db_tasks (snd (PUT ''task1'' (force_body ''bidB'') db_AB)) ''task1'')
     = Some (Some ''agentB'') \<and>
   db_bids db_accepted_A ''bidB'' = Some (bid_row ''agentB'' REJECTED) \<and>
   r_code (fst (PUT ''task1'' (force_body ''bidB'') db_accepted_A)) = 200 \<and>
   db_bids (snd (PUT ''task1'' (force_body ''bidB'') db_accepted_A)) ''bidA''
     = Some (bid_row ''agentA'' ACCEPTED) \<and>
   db_bids (snd (PUT ''task1'' (force_body ''bidB'') db_accepted_A)) ''bidB''
     = Some (bid_row ''agentB'' ACCEPTED) \<and>
   PUT ''task1'' (accept_body ''bidB'') db_accepted_A
     = (respond 400 False ''Can only update pending bids'' None, db_accepted_A)"
proof -
  note t = C10_force_accept_bypasses_pending_guard [OF db_AB_facts(1,2,3,4,5)]
  note u = C10_force_accept_bypasses_pending_guard [OF db_AB_facts(1,2,3) db_accepted_A_facts(1,2)]
  have ne: "''bidA'' \<noteq> pb_bidId (force_body ''bidB'')" by (simp add: force_body_def)
  have st: "mb_status (bid_row ''agentA'' ACCEPTED) \<noteq> PENDING"
    "mb_status (bid_row ''agentB'' PENDING) \<noteq> ACCEPTED"
    "mb_status (bid_row ''agentB'' REJECTED) \<noteq> ACCEPTED"
    "mb_status (bid_row ''agentB'' REJECTED) \<noteq> PENDING"
    "(bid_row ''agentB'' PENDING)\<lparr>mb_status := ACCEPTED\<rparr> = bid_row ''agentB'' ACCEPTED"
    "(bid_row ''agentB'' REJECTED)\<lparr>mb_status := ACCEPTED\<rparr> = bid_row ''agentB'' ACCEPTED"
    "mb_agentId (bid_row ''agentB'' PENDING) = ''agentB''"
    "(force_body ''bidB'')\<lparr>pb_forceAccept := False\<rparr> = accept_body ''bidB''"
    by (simp_all add: bid_row_def force_body_def accept_body_def)
  have a1: "db_bids (snd (PUT ''task1'' (force_body ''bidB'') db_AB)) ''bidA''
     = Some (bid_row ''agentA'' ACCEPTED)"
    using t ne db_AB_facts(6) st(1) by blast
  have a2: "db_bids (snd (PUT ''task1'' (force_body ''bidB'') db_AB)) ''bidB''
     = Some (bid_row ''agentB'' ACCEPTED)"
    using t by (simp add: db_AB_facts(7) st(5))
  have a3: "map_option mt_agentId (db_tasks (snd (PUT ''task1'' (force_body ''bidB'') db_AB)) ''task1'')
     = Some (Some ''agentB'')"
    using t st(2) by (simp add: st(7))
  have b1: "db_bids (snd (PUT ''task1'' (force_body ''bidB'') db_accepted_A)) ''bidA''
     = Some (bid_row ''agentA'' ACCEPTED)"
    using u ne db_accepted_A_facts(3) st(1) by blast
  have b2: "db_bids (snd (PUT ''task1'' (force_body ''bidB'') db_accepted_A)) ''bidB''
     = Some (bid_row ''agentB'' ACCEPTED)"
    using u by (simp add: db_AB_facts(7) st(6))
  have b3: "PUT ''task1'' (accept_body ''bidB'') db_accepted_A
     = (respond 400 False ''Can only update pending bids'' None, db_accepted_A)"
    using u st(4) by (simp add: st(8))
  have c: "findFirst_bid db_AB ''bidB'' ''task1'' = Some (bid_row ''agentB'' PENDING)"
    "map_option mt_agentId (db_tasks db_AB ''task1'') = Some (Some ''agentA'')"
    "db_bids db_accepted_A ''bidB'' = Some (bid_row ''agentB'' REJECTED)"
    using db_AB_facts(4,5) db_accepted_A_facts(1)
    by (simp_all add: db_AB_facts(7) findFirst_bid_Some)
  show ?thesis using t u a1 a2 a3 b1 b2 b3 c db_AB_facts(6) by simp
qed

end
